theory Spec2Isabelle
  imports Main "HOL-Library.Sublist"
begin

section \<open>Strings of the runtime\<close>

text \<open>
  The action is TypeScript; its strings are sequences of UTF-16 code units. A \<^typ>\<open>char\<close>
  stands for one code unit below 256, so the development covers the strings over that
  range. Nothing below depends on what a character is, except the test for white space.
\<close>

text \<open>
  \<^verbatim>\<open>String.prototype.indexOf\<close>: the position of the leftmost occurrence of a pattern.
  The empty pattern occurs at position 0 of every string.
\<close>

fun indexOf :: "'a list \<Rightarrow> 'a list \<Rightarrow> nat option" where
  "indexOf p [] = (if p = [] then Some 0 else None)"
| "indexOf p (c # cs) =
     (if prefix p (c # cs) then Some 0 else map_option Suc (indexOf p cs))"

text \<open>
  \<^verbatim>\<open>s.replace(p, r)\<close> with a string pattern \<open>p\<close>: only the leftmost occurrence is
  replaced, wherever it stands; \<open>s\<close> is returned unchanged when there is none. (The
  replacement is always the empty string in the action, so the \<^verbatim>\<open>$\<close> patterns of a
  replacement text play no part.)
\<close>

definition replace :: "'a list \<Rightarrow> 'a list \<Rightarrow> 'a list \<Rightarrow> 'a list" where
  "replace p r s =
     (case indexOf p s of
        None \<Rightarrow> s
      | Some i \<Rightarrow> take i s @ r @ drop (i + length p) s)"

text \<open>
  \<^verbatim>\<open>s.split(sep)\<close> with a string separator: the pieces between the occurrences of
  \<open>sep\<close>, found from left to right without overlap. The result of splitting the empty
  string on a non-empty separator is the list holding one empty string; an empty
  separator splits into the single code units.
\<close>

function split :: "'a list \<Rightarrow> 'a list \<Rightarrow> 'a list list" where
  "split sep s =
     (if sep = [] then map (\<lambda>c. [c]) s
      else case indexOf sep s of
             None \<Rightarrow> [s]
           | Some i \<Rightarrow> take i s # split sep (drop (i + length sep) s))"
  by pat_completeness auto

termination split
proof (relation "measure (\<lambda>(sep, s). length s)")
  show "wf (measure (\<lambda>(sep, s). length s))" by simp
next
  fix sep s :: "'a list" and i
  assume "sep \<noteq> []" and "indexOf sep s = Some i"
  then have "s \<noteq> []" by (cases s) auto
  with \<open>sep \<noteq> []\<close> show "((sep, drop (i + length sep) s), (sep, s)) \<in> measure (\<lambda>(sep, s). length s)"
    by (cases sep) auto
qed

declare split.simps [simp del]

text \<open>
  White space as \<^verbatim>\<open>String.prototype.trim\<close> and the class \<^verbatim>\<open>\s\<close> of a regular expression
  know it: tab, line feed, vertical tab, form feed, carriage return, space and the
  no-break space (the other white space of the runtime lies above 255).
\<close>

definition is_space :: "char \<Rightarrow> bool" where
  "is_space c = (c \<in> set [CHR 0x09, CHR 0x0A, CHR 0x0B, CHR 0x0C, CHR 0x0D, CHR '' '', CHR 0xA0])"

definition trim :: "string \<Rightarrow> string" where
  "trim s = rev (dropWhile is_space (rev (dropWhile is_space s)))"

text \<open>\<^verbatim>\<open>s.slice(0, n)\<close>: the first \<open>n\<close> code units, or all of \<open>s\<close> when it is shorter.\<close>

definition slice0 :: "nat \<Rightarrow> string \<Rightarrow> string" where
  "slice0 n s = take n s"

text \<open>
  \<^verbatim>\<open>s.match("true")\<close> builds a regular expression from a text that has no special
  character, so the match succeeds exactly when the text occurs in \<open>s\<close>.
\<close>

definition contains :: "'a list \<Rightarrow> 'a list \<Rightarrow> bool" where
  "contains p s = (indexOf p s \<noteq> None)"

text \<open>
  \<^verbatim>\<open>x.replace(/(^['\s]+)|(['\s]+$)/g, "")\<close>: the first alternative matches the longest
  run of single quotes and white space at the start, the second the longest such run
  that reaches the end; both are deleted.
\<close>

definition quote :: char where
  "quote = CHR 0x27"

definition dquote :: char where
  "dquote = CHR 0x22"

definition is_quote_or_space :: "char \<Rightarrow> bool" where
  "is_quote_or_space c = (c = quote \<or> is_space c)"

definition strip_quotes :: "string \<Rightarrow> string" where
  "strip_quotes x = rev (dropWhile is_quote_or_space (rev (dropWhile is_quote_or_space x)))"

text \<open>\<^verbatim>\<open>a || b\<close> on strings: the empty string is the only falsy one.\<close>

definition or_else :: "string \<Rightarrow> string \<Rightarrow> string" where
  "or_else a b = (if a \<noteq> [] then a else b)"

section \<open>The environment adapter\<close>

text \<open>
  \<^verbatim>\<open>process.env\<close> is a dictionary from names to strings. \<^verbatim>\<open>CoreAdapter.getInput\<close>
  throws \<^verbatim>\<open>Error("No " + key + " in env.")\<close> when the value stored for the key is the
  empty string, and otherwise returns the stored value, or the empty string for a key
  that is not set. A thrown error is the \<open>Inl\<close> of its message.
\<close>

type_synonym environ = "string \<rightharpoonup> string"

definition getInput :: "environ \<Rightarrow> string \<Rightarrow> string + string" where
  "getInput e key =
     (if e key = Some [] then Inl (''No '' @ key @ '' in env.'')
      else Inr (case e key of None \<Rightarrow> [] | Some x \<Rightarrow> x))"

section \<open>What the run observes and does\<close>

text \<open>
  The run talks to collaborators that are not part of the action: the regular
  expressions of the runtime, the command runner, the commit analyzer, the semantic
  version library, the release notes generator and the remote API. A \<open>world\<close> fixes
  what each of them answers. A call that throws answers \<open>Inl\<close> with the message of the
  error.
  \<^item> \<open>string_match w s p\<close> is \<^verbatim>\<open>s.match(p)\<close> for a pattern text \<open>p\<close>: whether the regular
    expression built from \<open>p\<close> matches somewhere in \<open>s\<close>, or the error of a text that is
    not a regular expression;
  \<^item> \<open>actions_exec w c\<close> is what running the command line \<open>c\<close> writes to the two
    listeners, and the exit code or the error it ends with;
  \<^item> \<open>analyzeCommits w preset commits\<close> is the bump the analyzer finds, if any;
  \<^item> \<open>semver_inc w version release\<close> is \<^verbatim>\<open>semver.inc\<close>, \<open>None\<close> for its \<^verbatim>\<open>null\<close>;
  \<^item> \<open>generateNotes w commits repositoryUrl lastTag nextTag nextVersion\<close> is the text
    of the release notes;
  \<^item> \<open>new_GitHub w token\<close> is the construction of the API client;
  \<^item> \<open>context_repo w\<close> is \<^verbatim>\<open>context.repo\<close>, the owner and the name of the repository;
  \<^item> \<open>createTag w owner repo tag message object type\<close> answers the identifier of the
    new tag object, and \<open>createRef w owner repo ref sha\<close> creates a reference.
\<close>

record commit =
  message :: string

record world =
  string_match :: "string \<Rightarrow> string \<Rightarrow> string + bool"
  actions_exec :: "string \<Rightarrow> string \<times> string \<times> (string + int)"
  analyzeCommits :: "string \<Rightarrow> commit list \<Rightarrow> string + string option"
  semver_inc :: "string \<Rightarrow> string \<Rightarrow> string option"
  generateNotes :: "commit list \<Rightarrow> string \<Rightarrow> string \<Rightarrow> string \<Rightarrow> string \<Rightarrow> string + string"
  new_GitHub :: "string \<Rightarrow> string + unit"
  context_repo :: "string + string \<times> string"
  createTag :: "string \<Rightarrow> string \<Rightarrow> string \<Rightarrow> string \<Rightarrow> string \<Rightarrow> string \<Rightarrow> string + string"
  createRef :: "string \<Rightarrow> string \<Rightarrow> string \<Rightarrow> string \<Rightarrow> string + unit"

text \<open>
  What the run does is recorded in order: the commands it runs, the outputs it sets and
  its calls of the collaborators, each with its arguments.
\<close>

datatype event =
    Exec string
  | SetOutput string string
  | AnalyzeCommits string "commit list"
  | SemverInc string string
  | GenerateNotes "commit list" string string string string
  | CreateTag string string string string string string
  | CreateRef string string string string

record state =
  env :: environ
  trace :: "event list"

text \<open>
  The run ends by returning, or through \<^verbatim>\<open>setFailed\<close>, which prints its message and
  exits with status 1. An error thrown inside the \<^verbatim>\<open>try\<close> block is caught and passed to
  \<^verbatim>\<open>setFailed\<close> with its message. A step of the run either ends it or goes on with the
  local variables and the state.
\<close>

datatype outcome = Returned | Failed string

type_synonym 'a step = "(outcome \<times> state) + ('a \<times> state)"

definition emit :: "event \<Rightarrow> state \<Rightarrow> state" where
  "emit e s = s\<lparr>trace := trace s @ [e]\<rparr>"

definition setFailed :: "string \<Rightarrow> state \<Rightarrow> 'a step" where
  "setFailed m s = Inl (Failed m, s)"

text \<open>\<^verbatim>\<open>setOutput\<close> stores the value in \<^verbatim>\<open>process.env\<close> under the key.\<close>

definition setOutput :: "string \<Rightarrow> string \<Rightarrow> state \<Rightarrow> state" where
  "setOutput key x s = emit (SetOutput key x) (s\<lparr>env := (env s)(key \<mapsto> x)\<rparr>)"

text \<open>
  The wrapper \<^verbatim>\<open>exec\<close> of \<^verbatim>\<open>lib.ts\<close> never throws: an error of the runner becomes the
  code 1, with the output collected so far.
\<close>

record exec_result =
  code :: int
  stdout :: string
  stderr :: string
  error :: "string option"

definition exec :: "world \<Rightarrow> string \<Rightarrow> exec_result" where
  "exec w command =
     (case actions_exec w command of
        (out, err, Inr c) \<Rightarrow> \<lparr>code = c, stdout = out, stderr = err, error = None\<rparr>
      | (out, err, Inl e) \<Rightarrow> \<lparr>code = 1, stdout = out, stderr = err, error = Some e\<rparr>)"

text \<open>A call \<^verbatim>\<open>await exec(command)\<close> in the run: the result, and the command recorded.\<close>

definition await_exec :: "world \<Rightarrow> string \<Rightarrow> state \<Rightarrow> exec_result \<times> state" where
  "await_exec w command s = (exec w command, emit (Exec command) s)"

section \<open>The run\<close>

definition SEPARATOR :: string where
  "SEPARATOR = ''==============================================''"

text \<open>The constants and variables of \<^verbatim>\<open>run\<close>; each holds its initial value until the
  line that assigns it.\<close>

record vars =
  defaultBump :: string
  messageParserPreset :: string
  tagPrefix :: string
  releaseBranches :: string
  createAnnotatedTag :: string
  dryRun :: string
  GITHUB_REF :: string
  GITHUB_SHA :: string
  preRelease :: bool
  tag :: string
  logs :: string
  commits :: "commit list"
  bump :: string
  newVersion :: string
  newTag :: string

text \<open>Lines 46 to 63: the six inputs, then the two required environment variables.\<close>

definition read_inputs :: "state \<Rightarrow> vars step" where
  "read_inputs s =
     (case getInput (env s) ''default_bump'' of Inl m \<Rightarrow> setFailed m s | Inr i1 \<Rightarrow>
     (case getInput (env s) ''message_parser_preset'' of Inl m \<Rightarrow> setFailed m s | Inr i2 \<Rightarrow>
     (case getInput (env s) ''tag_prefix'' of Inl m \<Rightarrow> setFailed m s | Inr i3 \<Rightarrow>
     (case getInput (env s) ''release_branches'' of Inl m \<Rightarrow> setFailed m s | Inr i4 \<Rightarrow>
     (case getInput (env s) ''create_annotated_tag'' of Inl m \<Rightarrow> setFailed m s | Inr i5 \<Rightarrow>
     (case getInput (env s) ''dry_run'' of Inl m \<Rightarrow> setFailed m s | Inr i6 \<Rightarrow>
        if env s ''GITHUB_REF'' = None \<or> env s ''GITHUB_REF'' = Some [] then setFailed ''Missing GITHUB_REF'' s
        else if env s ''GITHUB_SHA'' = None \<or> env s ''GITHUB_SHA'' = Some [] then setFailed ''Missing GITHUB_SHA'' s
        else Inr (\<lparr>defaultBump = i1, messageParserPreset = i2, tagPrefix = i3, releaseBranches = i4,
                   createAnnotatedTag = i5, dryRun = i6,
                   GITHUB_REF = the (env s ''GITHUB_REF''), GITHUB_SHA = the (env s ''GITHUB_SHA''),
                   preRelease = False, tag = [], logs = [], commits = [], bump = [],
                   newVersion = [], newTag = []\<rparr>, s)))))))"

text \<open>
  Lines 65 to 67. \<^verbatim>\<open>every\<close> calls its function on the patterns in order and stops with
  \<^verbatim>\<open>false\<close> at the first one that matches; a pattern that is not a regular expression
  throws when it is reached.
\<close>

fun every_no_match :: "world \<Rightarrow> string \<Rightarrow> string list \<Rightarrow> string + bool" where
  "every_no_match w b [] = Inr True"
| "every_no_match w b (p # ps) =
     (case string_match w b p of
        Inl m \<Rightarrow> Inl m
      | Inr matched \<Rightarrow> if matched then Inr False else every_no_match w b ps)"

definition isPreRelease :: "world \<Rightarrow> string \<Rightarrow> string \<Rightarrow> string + bool" where
  "isPreRelease w releaseBranches' ref =
     every_no_match w (replace ''refs/heads/'' [] ref) (split '','' releaseBranches')"

definition classify_branch :: "world \<Rightarrow> vars \<Rightarrow> state \<Rightarrow> vars step" where
  "classify_branch w v s =
     (case isPreRelease w (releaseBranches v) (GITHUB_REF v) of
        Inl m \<Rightarrow> setFailed m s
      | Inr b \<Rightarrow> Inr (v\<lparr>preRelease := b\<rparr>, s))"

text \<open>Lines 69 to 111: the history is made complete, the tags are fetched, and the previous
  tag and the log since that tag are read.\<close>

definition log_format :: string where
  "log_format = ''--pretty=format:'' @ [quote] @ ''%s%n%b'' @ SEPARATOR @ [quote] @ '' --abbrev-commit''"

definition previous_tag :: "world \<Rightarrow> vars \<Rightarrow> state \<Rightarrow> vars step" where
  "previous_tag w v s0 =
     (let (r1, s1) = await_exec w ''git rev-parse --is-shallow-repository'' s0;
          shallow = trim (stdout r1);
          s2 = (if contains ''true'' shallow then snd (await_exec w ''git fetch --unshallow'' s1) else s1);
          s3 = snd (await_exec w ''git fetch --tags'' s2);
          (r4, s4) = await_exec w ''git tag'' s3;
          hasTag = (trim (stdout r4) \<noteq> [])
      in if hasTag then
           let s5 = snd (await_exec w ''pwd'' s4);
               (r6, s6) = await_exec w (''git rev-list --tags='' @ tagPrefix v @ ''* --topo-order --max-count=1'') s5;
               previousTagSha = trim (stdout r6);
               (r7, s7) = await_exec w (''git describe --tags '' @ previousTagSha) s6;
               tag' = trim (stdout r7);
               (r8, s8) = await_exec w (''git log '' @ tag' @ ''..HEAD '' @ log_format) s7;
               logs' = trim (stdout r8)
           in if previousTagSha = GITHUB_SHA v then Inl (Returned, setOutput ''previous_tag'' tag' s8)
              else Inr (v\<lparr>tag := tag', logs := logs'\<rparr>, s8)
         else
           let (r5, s5) = await_exec w (''git log '' @ log_format) s4
           in Inr (v\<lparr>tag := ''0.0.0'', logs := trim (stdout r5)\<rparr>, setOutput ''previous_tag'' ''0.0.0'' s5))"

text \<open>Lines 116 to 119: the log is cut at the separator, each record is trimmed and
  cleaned, and the empty records are dropped.\<close>

definition parse_commits :: "string \<Rightarrow> commit list" where
  "parse_commits logs' =
     filter (\<lambda>x. message x \<noteq> [])
       (map (\<lambda>x. \<lparr>message = strip_quotes (trim x)\<rparr>) (split SEPARATOR logs'))"

definition read_commits :: "vars \<Rightarrow> state \<Rightarrow> vars step" where
  "read_commits v s = Inr (v\<lparr>commits := parse_commits (logs v)\<rparr>, s)"

text \<open>Lines 123 to 136. The analyzer answers a release type or \<^verbatim>\<open>null\<close>.\<close>

definition effective_bump :: "string option \<Rightarrow> string \<Rightarrow> string" where
  "effective_bump analyzed defaultBump' =
     (case analyzed of None \<Rightarrow> defaultBump' | Some b \<Rightarrow> or_else b defaultBump')"

definition resolve_bump :: "world \<Rightarrow> vars \<Rightarrow> state \<Rightarrow> vars step" where
  "resolve_bump w v s0 =
     (let preset = or_else (messageParserPreset v) ''conventionalcommits'';
          s1 = emit (AnalyzeCommits preset (commits v)) s0
      in case analyzeCommits w preset (commits v) of
           Inl m \<Rightarrow> setFailed m s1
         | Inr analyzed \<Rightarrow>
             let bump' = effective_bump analyzed (defaultBump v)
             in if bump' = [] then setFailed ''Nothing to bump - not building release'' s1
                else Inr (v\<lparr>bump := bump'\<rparr>, s1))"

text \<open>Lines 138 to 154.\<close>

definition compute_version :: "world \<Rightarrow> vars \<Rightarrow> state \<Rightarrow> vars step" where
  "compute_version w v s0 =
     (let rawVersion = replace (tagPrefix v) [] (tag v);
          release = or_else (bump v) (defaultBump v);
          s1 = emit (SemverInc rawVersion release) s0
      in case semver_inc w rawVersion release of
           None \<Rightarrow> setFailed (''SemVer inc rejected tag '' @ tag v) s1
         | Some incResult \<Rightarrow>
             if incResult = [] then setFailed (''SemVer inc rejected tag '' @ tag v) s1
             else
               let newVersion' = incResult @ (if preRelease v then ''-'' @ slice0 7 (GITHUB_SHA v) else []);
                   newTag' = tagPrefix v @ newVersion'
               in Inr (v\<lparr>newVersion := newVersion', newTag := newTag'\<rparr>,
                       setOutput ''new_tag'' newTag' (setOutput ''new_version'' newVersion' s1)))"

text \<open>Lines 158 to 171. An environment variable that is not set reads as
  \<^verbatim>\<open>undefined\<close> inside the template text.\<close>

definition changelog :: "world \<Rightarrow> vars \<Rightarrow> state \<Rightarrow> vars step" where
  "changelog w v s0 =
     (let repositoryUrl = ''https://github.com/'' @
            (case env s0 ''GITHUB_REPOSITORY'' of None \<Rightarrow> ''undefined'' | Some r \<Rightarrow> r);
          s1 = emit (GenerateNotes (commits v) repositoryUrl (tag v) (newTag v) (newVersion v)) s0
      in case generateNotes w (commits v) repositoryUrl (tag v) (newTag v) (newVersion v) of
           Inl m \<Rightarrow> setFailed m s1
         | Inr notes \<Rightarrow> Inr (v, setOutput ''changelog'' notes s1))"

text \<open>Lines 173 to 187: no tag on a branch that is not a release branch, and none when
  the tag is there already.\<close>

definition skip_gates :: "world \<Rightarrow> vars \<Rightarrow> state \<Rightarrow> vars step" where
  "skip_gates w v s0 =
     (if preRelease v then Inl (Returned, s0)
      else
        let (r, s1) = await_exec w (''git tag -l '' @ [dquote] @ newTag v @ [dquote]) s0;
            tagAlreadyExists = (trim (stdout r) \<noteq> [])
        in if tagAlreadyExists then Inl (Returned, s1) else Inr (v, s1))"

text \<open>Lines 189 to 194.\<close>

definition dry_run_gate :: "vars \<Rightarrow> state \<Rightarrow> vars step" where
  "dry_run_gate v s0 =
     (if dryRun v = ''true'' then Inl (Returned, setOutput ''dry_run'' ''true'' s0)
      else Inr (v, s0))"

text \<open>Line 196: the token is read and the client of the remote API is built.\<close>

definition connect :: "world \<Rightarrow> vars \<Rightarrow> state \<Rightarrow> vars step" where
  "connect w v s0 =
     (case getInput (env s0) ''github_token'' of
        Inl m \<Rightarrow> setFailed m s0
      | Inr token \<Rightarrow>
          (case new_GitHub w token of
             Inl m \<Rightarrow> setFailed m s0
           | Inr u \<Rightarrow> Inr (v, s0)))"

text \<open>Lines 198 to 229: the tag is created, annotated or not.\<close>

definition create_tag :: "world \<Rightarrow> vars \<Rightarrow> state \<Rightarrow> outcome \<times> state" where
  "create_tag w v s0 =
     (if createAnnotatedTag v = ''true'' then
        (case context_repo w of
           Inl m \<Rightarrow> (Failed m, s0)
         | Inr (owner, repo) \<Rightarrow>
             let s1 = emit (CreateTag owner repo (newTag v) (newTag v) (GITHUB_SHA v) ''commit'') s0
             in (case createTag w owner repo (newTag v) (newTag v) (GITHUB_SHA v) ''commit'' of
                   Inl m \<Rightarrow> (Failed m, s1)
                 | Inr sha \<Rightarrow>
                     let s2 = emit (CreateRef owner repo (''refs/tags/'' @ newTag v) sha) s1
                     in (case createRef w owner repo (''refs/tags/'' @ newTag v) sha of
                           Inl m \<Rightarrow> (Failed m, s2)
                         | Inr u \<Rightarrow> (Returned, s2))))
      else
        (case context_repo w of
           Inl m \<Rightarrow> (Failed m, s0)
         | Inr (owner, repo) \<Rightarrow>
             let s1 = emit (CreateRef owner repo (''refs/tags/'' @ newTag v) (GITHUB_SHA v)) s0
             in (case createRef w owner repo (''refs/tags/'' @ newTag v) (GITHUB_SHA v) of
                   Inl m \<Rightarrow> (Failed m, s1)
                 | Inr u \<Rightarrow> (Returned, snd (await_exec w ''git fetch --tags'' s1)))))"

text \<open>
  The run is the sequence of these steps from the environment it starts in. The
  functions \<open>until_\<close> give the run up to a line: \<open>Inr\<close> with the variables and the state
  when the run reaches the line, \<open>Inl\<close> with its end when it stops before.
\<close>

definition and_then :: "'a step \<Rightarrow> ('a \<Rightarrow> state \<Rightarrow> 'b step) \<Rightarrow> 'b step" where
  "and_then r f = (case r of Inl x \<Rightarrow> Inl x | Inr (v, s) \<Rightarrow> f v s)"

definition start :: "environ \<Rightarrow> state" where
  "start penv = \<lparr>env = penv, trace = []\<rparr>"

definition until_classification :: "world \<Rightarrow> environ \<Rightarrow> vars step" where
  "until_classification w penv = read_inputs (start penv)"

definition until_tag_discovery :: "world \<Rightarrow> environ \<Rightarrow> vars step" where
  "until_tag_discovery w penv = and_then (until_classification w penv) (classify_branch w)"

definition until_log_parsing :: "world \<Rightarrow> environ \<Rightarrow> vars step" where
  "until_log_parsing w penv = and_then (until_tag_discovery w penv) (previous_tag w)"

definition until_bump :: "world \<Rightarrow> environ \<Rightarrow> vars step" where
  "until_bump w penv = and_then (until_log_parsing w penv) read_commits"

definition until_version :: "world \<Rightarrow> environ \<Rightarrow> vars step" where
  "until_version w penv = and_then (until_bump w penv) (resolve_bump w)"

definition until_changelog :: "world \<Rightarrow> environ \<Rightarrow> vars step" where
  "until_changelog w penv = and_then (until_version w penv) (compute_version w)"

definition until_gates :: "world \<Rightarrow> environ \<Rightarrow> vars step" where
  "until_gates w penv = and_then (until_changelog w penv) (changelog w)"

definition until_dry_run :: "world \<Rightarrow> environ \<Rightarrow> vars step" where
  "until_dry_run w penv = and_then (until_gates w penv) (skip_gates w)"

definition until_connect :: "world \<Rightarrow> environ \<Rightarrow> vars step" where
  "until_connect w penv = and_then (until_dry_run w penv) dry_run_gate"

definition until_creation :: "world \<Rightarrow> environ \<Rightarrow> vars step" where
  "until_creation w penv = and_then (until_connect w penv) (connect w)"

definition run :: "world \<Rightarrow> environ \<Rightarrow> outcome \<times> state" where
  "run w penv =
     (case until_creation w penv of
        Inl r \<Rightarrow> r
      | Inr (v, s) \<Rightarrow> create_tag w v s)"

section \<open>Reading a run\<close>

text \<open>The rest of the run from a line, for the variables and the state it is reached with.\<close>

definition or_end :: "'a step \<Rightarrow> ('a \<Rightarrow> state \<Rightarrow> outcome \<times> state) \<Rightarrow> outcome \<times> state" where
  "or_end r f = (case r of Inl x \<Rightarrow> x | Inr (v, s) \<Rightarrow> f v s)"

definition from_connect :: "world \<Rightarrow> vars \<Rightarrow> state \<Rightarrow> outcome \<times> state" where
  "from_connect w v s = or_end (connect w v s) (create_tag w)"

definition from_dry_run :: "world \<Rightarrow> vars \<Rightarrow> state \<Rightarrow> outcome \<times> state" where
  "from_dry_run w v s = or_end (dry_run_gate v s) (from_connect w)"

definition from_gates :: "world \<Rightarrow> vars \<Rightarrow> state \<Rightarrow> outcome \<times> state" where
  "from_gates w v s = or_end (skip_gates w v s) (from_dry_run w)"

definition from_changelog :: "world \<Rightarrow> vars \<Rightarrow> state \<Rightarrow> outcome \<times> state" where
  "from_changelog w v s = or_end (changelog w v s) (from_gates w)"

definition from_version :: "world \<Rightarrow> vars \<Rightarrow> state \<Rightarrow> outcome \<times> state" where
  "from_version w v s = or_end (compute_version w v s) (from_changelog w)"

definition from_bump :: "world \<Rightarrow> vars \<Rightarrow> state \<Rightarrow> outcome \<times> state" where
  "from_bump w v s = or_end (resolve_bump w v s) (from_version w)"

definition from_log_parsing :: "world \<Rightarrow> vars \<Rightarrow> state \<Rightarrow> outcome \<times> state" where
  "from_log_parsing w v s = or_end (read_commits v s) (from_bump w)"

definition from_tag_discovery :: "world \<Rightarrow> vars \<Rightarrow> state \<Rightarrow> outcome \<times> state" where
  "from_tag_discovery w v s = or_end (previous_tag w v s) (from_log_parsing w)"

definition from_classification :: "world \<Rightarrow> vars \<Rightarrow> state \<Rightarrow> outcome \<times> state" where
  "from_classification w v s = or_end (classify_branch w v s) (from_tag_discovery w)"

text \<open>The state a step leaves, whether it ends the run or not.\<close>

definition state_of :: "'a step \<Rightarrow> state" where
  "state_of r = (case r of Inl (out, s) \<Rightarrow> s | Inr (v, s) \<Rightarrow> s)"

text \<open>
  The kinds of events, in the order in which the run can come to them: commands and
  outputs (0), bump resolution (1), version increment (2), changelog generation (3) and
  the calls of the remote API (4).
\<close>

fun phase :: "event \<Rightarrow> nat" where
  "phase (Exec c) = 0"
| "phase (SetOutput k x) = 0"
| "phase (AnalyzeCommits p cs) = 1"
| "phase (SemverInc x r) = 2"
| "phase (GenerateNotes cs u l n x) = 3"
| "phase (CreateTag ow re tg m ob ty) = 4"
| "phase (CreateRef ow re rf sh) = 4"

text \<open>The calls of the remote tag-publishing gateway.\<close>

fun is_remote :: "event \<Rightarrow> bool" where
  "is_remote (CreateTag ow re tg m ob ty) = True"
| "is_remote (CreateRef ow re rf sh) = True"
| "is_remote e = False"

text \<open>Version increment, changelog generation and tag work.\<close>

fun is_release_work :: "event \<Rightarrow> bool" where
  "is_release_work (SemverInc x r) = True"
| "is_release_work (GenerateNotes cs u l n x) = True"
| "is_release_work e = is_remote e"

text \<open>Bump resolution and everything that can follow it.\<close>

fun is_bump_work :: "event \<Rightarrow> bool" where
  "is_bump_work (AnalyzeCommits p cs) = True"
| "is_bump_work e = is_release_work e"

text \<open>The variables of the inputs hold what the environment of the run gave.\<close>

definition inputs_of :: "environ \<Rightarrow> vars \<Rightarrow> bool" where
  "inputs_of penv v =
     (getInput penv ''default_bump'' = Inr (defaultBump v)
      \<and> getInput penv ''message_parser_preset'' = Inr (messageParserPreset v)
      \<and> getInput penv ''tag_prefix'' = Inr (tagPrefix v)
      \<and> getInput penv ''release_branches'' = Inr (releaseBranches v)
      \<and> getInput penv ''create_annotated_tag'' = Inr (createAnnotatedTag v)
      \<and> getInput penv ''dry_run'' = Inr (dryRun v)
      \<and> penv ''GITHUB_REF'' = Some (GITHUB_REF v)
      \<and> penv ''GITHUB_SHA'' = Some (GITHUB_SHA v))"

section \<open>The claims in their own words\<close>

text \<open>
  The current branch as the specification words it, the ref without a leading
  \<^verbatim>\<open>refs/heads/\<close>, and the classification it gives.
\<close>

definition spec_current_branch :: "string \<Rightarrow> string" where
  "spec_current_branch ref =
     (if prefix ''refs/heads/'' ref then drop (length ''refs/heads/'') ref else ref)"

definition spec_preRelease :: "world \<Rightarrow> string \<Rightarrow> string \<Rightarrow> bool" where
  "spec_preRelease w releaseBranches' ref =
     list_all (\<lambda>p. string_match w (spec_current_branch ref) p \<noteq> Inr True) (split '','' releaseBranches')"

text \<open>Commit messages joined with a separator into one text.\<close>

fun join_records :: "string \<Rightarrow> string list \<Rightarrow> string" where
  "join_records sep [] = []"
| "join_records sep [m] = m"
| "join_records sep (m # ms) = m @ sep @ join_records sep ms"

section \<open>A world to run in\<close>

text \<open>
  Collaborators to try the run with. \<open>literal_match\<close> is the search for a pattern text
  without special characters, where a regular expression matches exactly where the
  text occurs. \<open>plain_inc\<close> increments a version of three numbers by \<^verbatim>\<open>major\<close>,
  \<^verbatim>\<open>minor\<close> or \<^verbatim>\<open>patch\<close>. \<open>test_analyze\<close> knows the two commonest markers of
  conventional commits. The repository of \<open>test_exec\<close> has the tag \<^verbatim>\<open>v1.2.3\<close> and the
  given log since that tag.
\<close>

definition literal_match :: "string \<Rightarrow> string \<Rightarrow> string + bool" where
  "literal_match s p = Inr (contains p s)"

definition digit_of :: "char \<Rightarrow> nat option" where
  "digit_of c = indexOf [c] ''0123456789''"

fun number_of :: "string \<Rightarrow> nat option" where
  "number_of [] = None"
| "number_of [c] = digit_of c"
| "number_of (c # cs) =
     (case (digit_of c, number_of cs) of
        (Some d, Some n) \<Rightarrow> Some (d * 10 ^ length cs + n)
      | _ \<Rightarrow> None)"

fun text_of :: "nat \<Rightarrow> string" where
  "text_of n =
     (if n < 10 then [''0123456789'' ! n]
      else text_of (n div 10) @ [''0123456789'' ! (n mod 10)])"

declare text_of.simps [simp del]

definition plain_inc :: "string \<Rightarrow> string \<Rightarrow> string option" where
  "plain_inc version release =
     (case map number_of (split ''.'' version) of
        [Some major, Some minor, Some patch] \<Rightarrow>
          if release = ''major'' then Some (text_of (major + 1) @ ''.0.0'')
          else if release = ''minor'' then Some (text_of major @ ''.'' @ text_of (minor + 1) @ ''.0'')
          else if release = ''patch'' then
            Some (text_of major @ ''.'' @ text_of minor @ ''.'' @ text_of (patch + 1))
          else None
      | _ \<Rightarrow> None)"

definition starts_with_any :: "string \<Rightarrow> commit list \<Rightarrow> bool" where
  "starts_with_any p cs = list_ex (\<lambda>c. prefix p (message c)) cs"

definition test_analyze :: "string \<Rightarrow> commit list \<Rightarrow> string + string option" where
  "test_analyze preset cs =
     Inr (if starts_with_any ''feat'' cs then Some ''minor''
          else if starts_with_any ''fix'' cs then Some ''patch'' else None)"

definition tagged_sha :: string where
  "tagged_sha = ''3f786850e387550fdab836ed7e6dc881de23001b''"

definition head_sha :: string where
  "head_sha = ''89e6c98d92887913cadf06b2adb97f26cde4849b''"

definition tag_object_sha :: string where
  "tag_object_sha = ''9c6b057a2b9d96a4067a749ee3b3b0158d390cf1''"

definition newline :: char where
  "newline = CHR 0x0A"

definition test_log :: string where
  "test_log =
     [quote] @ ''feat: add dry run'' @ [newline] @ SEPARATOR @ [quote, newline, quote]
     @ ''fix: typo'' @ [newline] @ SEPARATOR @ [quote]"

definition chore_log :: string where
  "chore_log = [quote] @ ''update readme'' @ [newline] @ SEPARATOR @ [quote]"

definition test_exec :: "string \<Rightarrow> string \<Rightarrow> string \<times> string \<times> (string + int)" where
  "test_exec log command =
     (if command = ''git rev-parse --is-shallow-repository'' then (''false'' @ [newline], [], Inr 0)
      else if command = ''git tag'' then (''v1.2.3'' @ [newline], [], Inr 0)
      else if command = ''git rev-list --tags=v* --topo-order --max-count=1'' then
        (tagged_sha @ [newline], [], Inr 0)
      else if command = ''git describe --tags '' @ tagged_sha then (''v1.2.3'' @ [newline], [], Inr 0)
      else if command = ''git log v1.2.3..HEAD '' @ log_format then (log, [], Inr 0)
      else ([], [], Inr 0))"

definition test_world :: world where
  "test_world =
     \<lparr>string_match = literal_match,
      actions_exec = test_exec test_log,
      analyzeCommits = test_analyze,
      semver_inc = plain_inc,
      generateNotes = (\<lambda>cs url last next version. Inr (''# '' @ version)),
      new_GitHub = (\<lambda>token. if token = [] then Inl ''Parameter token or opts.auth is required'' else Inr ()),
      context_repo = Inr (''octo'', ''demo''),
      createTag = (\<lambda>ow re tg m ob ty. Inr tag_object_sha),
      createRef = (\<lambda>ow re rf sh. Inr ())\<rparr>"

definition test_env :: environ where
  "test_env =
     [''GITHUB_REF'' \<mapsto> ''refs/heads/main'', ''GITHUB_SHA'' \<mapsto> head_sha,
      ''GITHUB_REPOSITORY'' \<mapsto> ''octo/demo'', ''tag_prefix'' \<mapsto> ''v'',
      ''release_branches'' \<mapsto> ''main,release/'', ''github_token'' \<mapsto> ''t0ken'']"

text \<open>More runs to try: an annotated tag, a dry run, a branch that is not a release
  branch, a head that is the tagged commit, no list of release branches, a log without
  markers, and a remote API that refuses the tag object.\<close>

definition annotated_env :: environ where
  "annotated_env = test_env(''create_annotated_tag'' \<mapsto> ''true'')"

definition dry_run_env :: environ where
  "dry_run_env = test_env(''dry_run'' \<mapsto> ''true'')"

definition topic_env :: environ where
  "topic_env = test_env(''GITHUB_REF'' \<mapsto> ''refs/heads/topic'')"

definition same_commit_env :: environ where
  "same_commit_env = test_env(''GITHUB_SHA'' \<mapsto> tagged_sha)"

definition unset_branches_env :: environ where
  "unset_branches_env = test_env(''release_branches'' := None)"

definition chore_world :: world where
  "chore_world = test_world\<lparr>actions_exec := test_exec chore_log\<rparr>"

definition offline_world :: world where
  "offline_world = test_world\<lparr>createTag := (\<lambda>ow re tg m ob ty. Inl ''Bad credentials'')\<rparr>"

section \<open>Notions for the proofs\<close>

text \<open>All events of the trace are of the first \<open>n\<close> kinds.\<close>

definition within :: "nat \<Rightarrow> state \<Rightarrow> bool" where
  "within n s = list_all (\<lambda>e. phase e \<le> n) (trace s)"

text \<open>The variables at a line, when the run reaches it.\<close>

definition reached :: "vars step \<Rightarrow> vars option" where
  "reached r = (case r of Inl x \<Rightarrow> None | Inr (v, s) \<Rightarrow> Some v)"

text \<open>A commit message that the parsing of the log leaves as it is, and that cannot be
  confused with the separator: not empty, no single quote or white space at either end,
  no \<^verbatim>\<open>=\<close> at the end and no separator inside.\<close>

definition clean :: "string \<Rightarrow> bool" where
  "clean m = (m \<noteq> [] \<and> \<not> is_quote_or_space (hd m) \<and> \<not> is_quote_or_space (last m)
     \<and> last m \<noteq> CHR ''='' \<and> \<not> contains SEPARATOR m)"

section \<open>Lemmas\<close>

lemma and_then_Inr: "and_then r f = Inr y \<Longrightarrow> \<exists>v s. r = Inr (v, s) \<and> f v s = Inr y"
  by (auto simp: and_then_def split: sum.splits)

lemma and_then_Inl: "and_then r f = Inl x \<Longrightarrow> r = Inl x \<or> (\<exists>v s. r = Inr (v, s) \<and> f v s = Inl x)"
  by (auto simp: and_then_def split: sum.splits)

lemma and_then_simps [simp]:
  "and_then (Inl x) f = Inl x"
  "and_then (Inr (v, s)) f = f v s"
  by (simp_all add: and_then_def)

lemma or_end_simps [simp]:
  "or_end (Inl x) g = x"
  "or_end (Inr (v, s)) g = g v s"
  by (simp_all add: or_end_def)

lemma state_of_simps [simp]:
  "state_of (Inl (out, s)) = s"
  "state_of (Inr (v, s)) = s"
  by (simp_all add: state_of_def)

lemma or_end_and_then: "or_end (and_then r f) g = or_end r (\<lambda>v s. or_end (f v s) g)"
  by (cases r) auto

lemma within_emit: "within n s \<Longrightarrow> phase e \<le> n \<Longrightarrow> within n (emit e s)"
  by (simp add: within_def emit_def)

lemma within_setOutput: "within n s \<Longrightarrow> within n (setOutput k x s)"
  by (simp add: within_def emit_def setOutput_def)

lemma within_await_exec: "within n s \<Longrightarrow> within n (snd (await_exec w c s))"
  by (simp add: within_def emit_def await_exec_def)

lemma within_mono: "within m s \<Longrightarrow> m \<le> n \<Longrightarrow> within n s"
  by (auto simp: within_def list_all_iff)

lemma within_and_then:
  assumes "within n (state_of r)" and "\<And>v s. within n s \<Longrightarrow> within n (state_of (f v s))"
  shows "within n (state_of (and_then r f))"
  using assms by (cases r) auto

lemma read_inputs_state: "state_of (read_inputs s) = s"
  by (simp add: read_inputs_def setFailed_def split: sum.splits)

lemma classify_branch_state: "state_of (classify_branch w v s) = s"
  by (simp add: classify_branch_def setFailed_def split: sum.splits)

lemma previous_tag_within: "within n s \<Longrightarrow> within n (state_of (previous_tag w v s))"
  by (simp add: previous_tag_def Let_def within_setOutput within_await_exec await_exec_def within_emit split: prod.splits)

lemma read_commits_state: "state_of (read_commits v s) = s"
  by (simp add: read_commits_def)

lemma resolve_bump_within: "within n s \<Longrightarrow> 1 \<le> n \<Longrightarrow> within n (state_of (resolve_bump w v s))"
  by (simp add: resolve_bump_def Let_def setFailed_def within_emit split: sum.splits)

lemma compute_version_within: "within n s \<Longrightarrow> 2 \<le> n \<Longrightarrow> within n (state_of (compute_version w v s))"
  by (simp add: compute_version_def Let_def setFailed_def within_emit within_setOutput split: option.splits)

lemma changelog_within: "within n s \<Longrightarrow> 3 \<le> n \<Longrightarrow> within n (state_of (changelog w v s))"
  by (simp add: changelog_def Let_def setFailed_def within_emit within_setOutput split: sum.splits)

lemma skip_gates_within: "within n s \<Longrightarrow> within n (state_of (skip_gates w v s))"
  by (simp add: skip_gates_def Let_def await_exec_def within_emit split: prod.splits)

lemma dry_run_gate_within: "within n s \<Longrightarrow> within n (state_of (dry_run_gate v s))"
  by (simp add: dry_run_gate_def within_setOutput)

lemma connect_state: "state_of (connect w v s) = s"
  by (simp add: connect_def setFailed_def split: sum.splits)

subsection \<open>The inputs stay what they were read as\<close>

lemma read_inputs_inputs: "read_inputs s = Inr (v, s') \<Longrightarrow> inputs_of (env s) v \<and> s' = s"
  by (auto simp: read_inputs_def setFailed_def inputs_of_def split: sum.splits if_splits)

lemma classify_branch_inputs:
  "classify_branch w v s = Inr (v', s') \<Longrightarrow> inputs_of penv v \<Longrightarrow> inputs_of penv v'"
  by (auto simp: classify_branch_def setFailed_def inputs_of_def split: sum.splits)

lemma previous_tag_inputs:
  "previous_tag w v s = Inr (v', s') \<Longrightarrow> inputs_of penv v \<Longrightarrow> inputs_of penv v'"
  by (auto simp: previous_tag_def Let_def inputs_of_def split: prod.splits if_splits)

lemma read_commits_inputs:
  "read_commits v s = Inr (v', s') \<Longrightarrow> inputs_of penv v \<Longrightarrow> inputs_of penv v'"
  by (auto simp: read_commits_def inputs_of_def)

lemma resolve_bump_inputs:
  "resolve_bump w v s = Inr (v', s') \<Longrightarrow> inputs_of penv v \<Longrightarrow> inputs_of penv v'"
  by (auto simp: resolve_bump_def Let_def setFailed_def inputs_of_def split: sum.splits if_splits)

lemma compute_version_inputs:
  "compute_version w v s = Inr (v', s') \<Longrightarrow> inputs_of penv v \<Longrightarrow> inputs_of penv v'"
  by (auto simp: compute_version_def Let_def setFailed_def inputs_of_def split: option.splits if_splits)

lemma changelog_vars: "changelog w v s = Inr (v', s') \<Longrightarrow> v' = v"
  by (auto simp: changelog_def Let_def setFailed_def split: sum.splits)

lemma skip_gates_vars: "skip_gates w v s = Inr (v', s') \<Longrightarrow> v' = v \<and> \<not> preRelease v"
  by (auto simp: skip_gates_def Let_def split: prod.splits if_splits)

lemma dry_run_gate_vars: "dry_run_gate v s = Inr (v', s') \<Longrightarrow> v' = v \<and> s' = s \<and> dryRun v \<noteq> ''true''"
  by (auto simp: dry_run_gate_def split: if_splits)

lemma connect_vars: "connect w v s = Inr (v', s') \<Longrightarrow> v' = v \<and> s' = s"
  by (auto simp: connect_def setFailed_def split: sum.splits)

subsection \<open>The run up to a line\<close>

lemma until_classification_inputs:
  "until_classification w penv = Inr (v, s) \<Longrightarrow> inputs_of penv v \<and> s = start penv"
  using read_inputs_inputs [of "start penv" v s] by (simp add: until_classification_def start_def)

lemma until_tag_discovery_inputs:
  "until_tag_discovery w penv = Inr (v, s) \<Longrightarrow> inputs_of penv v \<and> s = start penv"
  unfolding until_tag_discovery_def
  by (auto dest!: and_then_Inr until_classification_inputs
      simp: classify_branch_def setFailed_def inputs_of_def split: sum.splits)

lemma until_log_parsing_inputs: "until_log_parsing w penv = Inr (v, s) \<Longrightarrow> inputs_of penv v"
  unfolding until_log_parsing_def
  by (auto dest!: and_then_Inr dest: until_tag_discovery_inputs previous_tag_inputs)

lemma until_bump_inputs: "until_bump w penv = Inr (v, s) \<Longrightarrow> inputs_of penv v"
  unfolding until_bump_def
  by (auto dest!: and_then_Inr dest: until_log_parsing_inputs read_commits_inputs)

lemma until_version_inputs: "until_version w penv = Inr (v, s) \<Longrightarrow> inputs_of penv v"
  unfolding until_version_def
  by (auto dest!: and_then_Inr dest: until_bump_inputs resolve_bump_inputs)

lemma until_changelog_inputs: "until_changelog w penv = Inr (v, s) \<Longrightarrow> inputs_of penv v"
  unfolding until_changelog_def
  by (auto dest!: and_then_Inr dest: until_version_inputs compute_version_inputs)

lemma until_gates_inputs: "until_gates w penv = Inr (v, s) \<Longrightarrow> inputs_of penv v"
  unfolding until_gates_def
  by (auto dest!: and_then_Inr dest: until_changelog_inputs changelog_vars)

lemma until_dry_run_inputs: "until_dry_run w penv = Inr (v, s) \<Longrightarrow> inputs_of penv v"
  unfolding until_dry_run_def
  by (auto dest!: and_then_Inr dest: until_gates_inputs skip_gates_vars)

lemma until_connect_inputs: "until_connect w penv = Inr (v, s) \<Longrightarrow> inputs_of penv v"
  unfolding until_connect_def
  by (auto dest!: and_then_Inr dest: until_dry_run_inputs dry_run_gate_vars)

lemma until_creation_inputs: "until_creation w penv = Inr (v, s) \<Longrightarrow> inputs_of penv v"
  unfolding until_creation_def
  by (auto dest!: and_then_Inr dest: until_connect_inputs connect_vars)

lemma until_log_parsing_within: "within n (state_of (until_log_parsing w penv))"
proof -
  have "within n (start penv)" by (simp add: within_def start_def)
  then have "within n (state_of (until_classification w penv))"
    by (simp add: until_classification_def read_inputs_state)
  then have "within n (state_of (until_tag_discovery w penv))"
    unfolding until_tag_discovery_def by (rule within_and_then) (simp add: classify_branch_state)
  then show ?thesis
    unfolding until_log_parsing_def by (rule within_and_then) (rule previous_tag_within)
qed

lemma until_bump_within: "within n (state_of (until_bump w penv))"
  unfolding until_bump_def
  by (rule within_and_then [OF until_log_parsing_within]) (simp add: read_commits_state)

lemma until_version_within: "1 \<le> n \<Longrightarrow> within n (state_of (until_version w penv))"
  unfolding until_version_def
  by (rule within_and_then [OF until_bump_within]) (rule resolve_bump_within)

lemma until_changelog_within: "2 \<le> n \<Longrightarrow> within n (state_of (until_changelog w penv))"
  unfolding until_changelog_def
  by (rule within_and_then [OF until_version_within]) (simp_all add: compute_version_within)

lemma until_gates_within: "3 \<le> n \<Longrightarrow> within n (state_of (until_gates w penv))"
  unfolding until_gates_def
  by (rule within_and_then [OF until_changelog_within]) (simp_all add: changelog_within)

lemma until_dry_run_within: "3 \<le> n \<Longrightarrow> within n (state_of (until_dry_run w penv))"
  unfolding until_dry_run_def
  by (rule within_and_then [OF until_gates_within]) (simp_all add: skip_gates_within)

lemma until_connect_within: "3 \<le> n \<Longrightarrow> within n (state_of (until_connect w penv))"
  unfolding until_connect_def
  by (rule within_and_then [OF until_dry_run_within]) (simp_all add: dry_run_gate_within)

lemma until_creation_within: "3 \<le> n \<Longrightarrow> within n (state_of (until_creation w penv))"
  unfolding until_creation_def
  by (rule within_and_then [OF until_connect_within]) (simp_all add: connect_state)

subsection \<open>The run from a line\<close>

lemma run_from_creation: "run w penv = or_end (until_creation w penv) (create_tag w)"
  by (simp add: run_def or_end_def)

lemma run_from_connect: "run w penv = or_end (until_connect w penv) (from_connect w)"
  by (simp add: run_from_creation until_creation_def or_end_and_then from_connect_def [abs_def])

lemma run_from_dry_run: "run w penv = or_end (until_dry_run w penv) (from_dry_run w)"
  by (simp add: run_from_connect until_connect_def or_end_and_then from_dry_run_def [abs_def])

lemma run_from_gates: "run w penv = or_end (until_gates w penv) (from_gates w)"
  by (simp add: run_from_dry_run until_dry_run_def or_end_and_then from_gates_def [abs_def])

lemma run_from_changelog: "run w penv = or_end (until_changelog w penv) (from_changelog w)"
  by (simp add: run_from_gates until_gates_def or_end_and_then from_changelog_def [abs_def])

lemma run_from_version: "run w penv = or_end (until_version w penv) (from_version w)"
  by (simp add: run_from_changelog until_changelog_def or_end_and_then from_version_def [abs_def])

lemma run_from_bump: "run w penv = or_end (until_bump w penv) (from_bump w)"
  by (simp add: run_from_version until_version_def or_end_and_then from_bump_def [abs_def])

lemma run_from_log_parsing: "run w penv = or_end (until_log_parsing w penv) (from_log_parsing w)"
  by (simp add: run_from_bump until_bump_def or_end_and_then from_log_parsing_def [abs_def])

lemma run_from_tag_discovery: "run w penv = or_end (until_tag_discovery w penv) (from_tag_discovery w)"
  by (simp add: run_from_log_parsing until_log_parsing_def or_end_and_then from_tag_discovery_def [abs_def])

lemma run_from_classification: "run w penv = or_end (until_classification w penv) (from_classification w)"
  by (simp add: run_from_tag_discovery until_tag_discovery_def or_end_and_then from_classification_def [abs_def])

subsection \<open>Classification\<close>

lemma every_no_match_Inr:
  "every_no_match w b ps = Inr r \<Longrightarrow> r = (\<forall>p\<in>set ps. string_match w b p \<noteq> Inr True)"
  by (induction ps arbitrary: r) (auto split: sum.splits if_splits)

lemma every_no_match_total:
  "\<forall>p\<in>set ps. \<exists>m. string_match w b p = Inr m \<Longrightarrow> \<exists>r. every_no_match w b ps = Inr r"
  by (induction ps) (auto split: sum.splits)

lemma replace_leading: "replace ''refs/heads/'' [] (''refs/heads/'' @ b) = b"
  by (simp add: replace_def)

lemma replace_absent: "\<not> contains p s \<Longrightarrow> replace p r s = s"
  by (simp add: replace_def contains_def)

lemmas str_defs = replace_def contains_def split.simps literal_match_def isPreRelease_def
  spec_preRelease_def spec_current_branch_def

subsection \<open>Splitting a joined text\<close>

lemma indexOf_None: "indexOf p s = None \<Longrightarrow> \<not> prefix p (drop j s)"
proof (induction s arbitrary: j)
  case Nil
  then show ?case by (auto split: if_splits)
next
  case (Cons c cs)
  then show ?case by (cases j) (auto split: if_splits)
qed

lemma indexOf_at:
  "prefix p (drop i s) \<Longrightarrow> i \<le> length s \<Longrightarrow> \<forall>j<i. \<not> prefix p (drop j s) \<Longrightarrow> indexOf p s = Some i"
proof (induction s arbitrary: i)
  case Nil
  then show ?case by simp
next
  case (Cons c cs)
  show ?case
  proof (cases i)
    case 0
    with Cons.prems show ?thesis by simp
  next
    case (Suc k)
    have "0 < i" using Suc by simp
    with Cons.prems(3) have "\<not> prefix p (drop 0 (c # cs))" by blast
    then have first: "\<not> prefix p (c # cs)" by simp
    have "indexOf p cs = Some k"
    proof (rule Cons.IH)
      show "prefix p (drop k cs)" using Cons.prems(1) Suc by simp
      show "k \<le> length cs" using Cons.prems(2) Suc by simp
      show "\<forall>j<k. \<not> prefix p (drop j cs)"
      proof (intro allI impI)
        fix j assume "j < k"
        then have "Suc j < i" using Suc by simp
        with Cons.prems(3) have "\<not> prefix p (drop (Suc j) (c # cs))" by blast
        then show "\<not> prefix p (drop j cs)" by simp
      qed
    qed
    with first show ?thesis using Suc by simp
  qed
qed

lemma prefix_within: "prefix xs (ys @ zs) \<Longrightarrow> length xs \<le> length ys \<Longrightarrow> prefix xs ys"
  by (rule prefix_length_prefix [of xs "ys @ zs" ys]) simp_all

lemma run_of_equal_blocks:
  assumes "prefix (replicate n c) (d @ replicate n c @ rest)" and "d \<noteq> []" and "length d < n"
  shows "last d = c"
proof -
  define k where "k = length d"
  have k: "k < n" "k \<noteq> 0" using assms(2,3) by (simp_all add: k_def)
  from assms(1) obtain zs where eq: "d @ replicate n c @ rest = replicate n c @ zs"
    by (auto simp: prefix_def)
  have a: "take k (d @ replicate n c @ rest) = d" by (simp add: k_def)
  have b: "take k (replicate n c @ zs) = replicate k c" using k by (simp add: min_def)
  from eq have "take k (d @ replicate n c @ rest) = take k (replicate n c @ zs)" by (simp only:)
  with a b have "d = replicate k c" by (simp only:)
  then show ?thesis using k by simp
qed

lemma no_early_separator:
  assumes none: "indexOf (replicate n c) m = None" and fin: "m \<noteq> [] \<Longrightarrow> last m \<noteq> c" and j: "j < length m"
  shows "\<not> prefix (replicate n c) (drop j (m @ replicate n c @ rest))"
proof
  assume pre: "prefix (replicate n c) (drop j (m @ replicate n c @ rest))"
  define d where "d = drop j m"
  have d: "d \<noteq> []" using j by (simp add: d_def)
  have m: "m \<noteq> []" using j by auto
  have "drop j (m @ replicate n c @ rest) = d @ replicate n c @ rest" using j by (simp add: d_def)
  with pre have pre': "prefix (replicate n c) (d @ replicate n c @ rest)" by (simp only:)
  show False
  proof (cases "length d < n")
    case True
    from run_of_equal_blocks [OF pre' d True] have "last d = c" .
    moreover have "last d = last m" using j by (simp add: d_def)
    ultimately show False using fin [OF m] by simp
  next
    case False
    then have "length (replicate n c) \<le> length d" by simp
    with pre' have "prefix (replicate n c) d" by (rule prefix_within)
    then have "prefix (replicate n c) (drop j m)" by (simp only: d_def)
    with indexOf_None [OF none] show False by blast
  qed
qed

lemma indexOf_joined:
  assumes "indexOf (replicate n c) m = None" and "m \<noteq> [] \<Longrightarrow> last m \<noteq> c"
  shows "indexOf (replicate n c) (m @ replicate n c @ rest) = Some (length m)"
proof (rule indexOf_at)
  show "prefix (replicate n c) (drop (length m) (m @ replicate n c @ rest))" by simp
  show "length m \<le> length (m @ replicate n c @ rest)" by simp
  show "\<forall>j<length m. \<not> prefix (replicate n c) (drop j (m @ replicate n c @ rest))"
    using no_early_separator [OF assms] by blast
qed

lemma split_none: "sep \<noteq> [] \<Longrightarrow> indexOf sep s = None \<Longrightarrow> split sep s = [s]"
  by (subst split.simps) simp

lemma split_some:
  "sep \<noteq> [] \<Longrightarrow> indexOf sep s = Some i \<Longrightarrow> split sep s = take i s # split sep (drop (i + length sep) s)"
  by (subst split.simps) simp

lemma split_joined:
  assumes n: "0 < n"
  shows "ms \<noteq> [] \<Longrightarrow> \<forall>m\<in>set ms. indexOf (replicate n c) m = None \<and> (m \<noteq> [] \<longrightarrow> last m \<noteq> c)
    \<Longrightarrow> split (replicate n c) (join_records (replicate n c) ms) = ms"
proof (induction ms)
  case Nil
  then show ?case by simp
next
  case (Cons m ms)
  have sep: "replicate n c \<noteq> []" using n by simp
  from Cons.prems(2) have m: "indexOf (replicate n c) m = None" "m \<noteq> [] \<Longrightarrow> last m \<noteq> c"
    by simp_all
  show ?case
  proof (cases ms)
    case Nil
    then show ?thesis using split_none [OF sep m(1)] by simp
  next
    case (Cons m' ms')
    let ?rest = "join_records (replicate n c) ms"
    have at: "indexOf (replicate n c) (m @ replicate n c @ ?rest) = Some (length m)"
      using m by (rule indexOf_joined)
    have rest: "split (replicate n c) ?rest = ms"
      using Cons.IH Cons.prems(2) Cons by simp
    have "join_records (replicate n c) (m # ms) = m @ replicate n c @ ?rest"
      using Cons by simp
    then show ?thesis using split_some [OF sep at] rest by simp
  qed
qed

lemma SEPARATOR_replicate: "SEPARATOR = replicate 46 (CHR ''='')"
  unfolding SEPARATOR_def by code_simp

lemma dropWhile_hd: "xs \<noteq> [] \<Longrightarrow> \<not> P (hd xs) \<Longrightarrow> dropWhile P xs = xs"
  by (cases xs) auto

lemma strip_ends:
  "m \<noteq> [] \<Longrightarrow> \<not> P (hd m) \<Longrightarrow> \<not> P (last m) \<Longrightarrow> rev (dropWhile P (rev (dropWhile P m))) = m"
  by (simp add: dropWhile_hd hd_rev)

lemma clean_record: "clean m \<Longrightarrow> strip_quotes (trim m) = m"
proof -
  assume c: "clean m"
  then have "trim m = m"
    unfolding trim_def by (intro strip_ends) (auto simp: clean_def is_quote_or_space_def)
  moreover from c have "strip_quotes m = m"
    unfolding strip_quotes_def by (intro strip_ends) (auto simp: clean_def)
  ultimately show ?thesis by simp
qed

lemma parse_clean_records:
  "\<forall>m\<in>set ms. clean m \<Longrightarrow>
   map message (filter (\<lambda>x. message x \<noteq> []) (map (\<lambda>x. \<lparr>message = strip_quotes (trim x)\<rparr>) ms)) = ms"
proof (induction ms)
  case Nil
  then show ?case by simp
next
  case (Cons m ms)
  then have "strip_quotes (trim m) = m" and "m \<noteq> []" by (simp_all add: clean_record clean_def)
  with Cons show ?case by simp
qed

lemmas parse_defs = parse_commits_def split.simps SEPARATOR_def trim_def strip_quotes_def
  is_quote_or_space_def is_space_def quote_def

lemma is_release_work_phase: "is_release_work e \<Longrightarrow> 2 \<le> phase e"
  by (cases e) simp_all

lemma is_bump_work_phase: "is_bump_work e \<Longrightarrow> 1 \<le> phase e"
  by (cases e) simp_all

lemma is_remote_phase: "is_remote e \<Longrightarrow> 4 \<le> phase e"
  by (cases e) simp_all

lemma within_filter:
  assumes "within n s" and "\<And>e. P e \<Longrightarrow> n < phase e"
  shows "filter P (trace s) = []"
proof -
  have "\<not> P e" if "e \<in> set (trace s)" for e
  proof
    assume "P e"
    then have "n < phase e" by (rule assms(2))
    moreover have "phase e \<le> n" using assms(1) that by (simp add: within_def list_all_iff)
    ultimately show False by simp
  qed
  then show ?thesis by (simp add: filter_empty_conv)
qed

lemma within_no_remote: "within 3 s \<Longrightarrow> filter is_remote (trace s) = []"
  by (rule within_filter) (auto dest: is_remote_phase)

lemma within_no_release_work: "within 1 s \<Longrightarrow> filter is_release_work (trace s) = []"
  by (rule within_filter) (auto dest: is_release_work_phase)

lemma within_no_bump_work: "within 0 s \<Longrightarrow> filter is_bump_work (trace s) = []"
  by (rule within_filter) (auto dest: is_bump_work_phase)

subsection \<open>The outputs stay\<close>

lemma or_end_env:
  assumes "env (state_of r) k = x" and "\<And>v' s'. env s' k = x \<Longrightarrow> env (snd (f v' s')) k = x"
  shows "env (snd (or_end r f)) k = x"
  using assms by (cases r) auto

lemma changelog_env: "k \<noteq> ''changelog'' \<Longrightarrow> env (state_of (changelog w v s)) k = env s k"
  by (simp add: changelog_def Let_def setFailed_def setOutput_def emit_def split: sum.splits)

lemma skip_gates_env: "env (state_of (skip_gates w v s)) = env s"
  by (simp add: skip_gates_def Let_def await_exec_def emit_def split: prod.splits)

lemma dry_run_gate_env: "k \<noteq> ''dry_run'' \<Longrightarrow> env (state_of (dry_run_gate v s)) k = env s k"
  by (simp add: dry_run_gate_def setOutput_def emit_def)

lemma create_tag_env: "env (snd (create_tag w v s)) = env s"
  by (simp add: create_tag_def Let_def await_exec_def emit_def split: sum.splits prod.splits)

lemma from_connect_env: "env s k = x \<Longrightarrow> env (snd (from_connect w v s)) k = x"
  unfolding from_connect_def
  by (rule or_end_env) (simp_all add: connect_state create_tag_env)

lemma from_dry_run_env: "k \<noteq> ''dry_run'' \<Longrightarrow> env s k = x \<Longrightarrow> env (snd (from_dry_run w v s)) k = x"
  unfolding from_dry_run_def
  by (rule or_end_env) (simp_all add: dry_run_gate_env from_connect_env)

lemma from_gates_env: "k \<noteq> ''dry_run'' \<Longrightarrow> env s k = x \<Longrightarrow> env (snd (from_gates w v s)) k = x"
  unfolding from_gates_def
  by (rule or_end_env) (simp_all add: skip_gates_env from_dry_run_env)

lemma from_changelog_env:
  "k \<noteq> ''dry_run'' \<Longrightarrow> k \<noteq> ''changelog'' \<Longrightarrow> env s k = x \<Longrightarrow> env (snd (from_changelog w v s)) k = x"
  unfolding from_changelog_def
  by (rule or_end_env) (simp_all add: changelog_env from_gates_env)

lemma previous_tag_pre: "previous_tag w v s = Inr (v', s') \<Longrightarrow> preRelease v' = preRelease v"
  by (auto simp: previous_tag_def Let_def split: prod.splits if_splits)

lemma read_commits_pre: "read_commits v s = Inr (v', s') \<Longrightarrow> preRelease v' = preRelease v"
  by (auto simp: read_commits_def)

lemma resolve_bump_pre: "resolve_bump w v s = Inr (v', s') \<Longrightarrow> preRelease v' = preRelease v"
  by (auto simp: resolve_bump_def Let_def setFailed_def split: sum.splits if_splits)

lemma compute_version_pre: "compute_version w v s = Inr (v', s') \<Longrightarrow> preRelease v' = preRelease v"
  by (auto simp: compute_version_def Let_def setFailed_def split: option.splits if_splits)

lemma until_gates_pre:
  assumes "until_gates w penv = Inr (v', s')" and "until_tag_discovery w penv = Inr (v, s)"
  shows "preRelease v' = preRelease v"
proof -
  from assms(1) obtain v4 s4 where a4: "until_changelog w penv = Inr (v4, s4)" and "v' = v4"
    unfolding until_gates_def by (auto dest!: and_then_Inr changelog_vars)
  from a4 obtain v3 s3 where a3: "until_version w penv = Inr (v3, s3)" and "preRelease v4 = preRelease v3"
    unfolding until_changelog_def by (auto dest!: and_then_Inr dest: compute_version_pre)
  from a3 obtain v2 s2 where a2: "until_bump w penv = Inr (v2, s2)" and "preRelease v3 = preRelease v2"
    unfolding until_version_def by (auto dest!: and_then_Inr dest: resolve_bump_pre)
  from a2 obtain v1 s1 where a1: "until_log_parsing w penv = Inr (v1, s1)" and "preRelease v2 = preRelease v1"
    unfolding until_bump_def by (auto dest!: and_then_Inr dest: read_commits_pre)
  from a1 assms(2) have "preRelease v1 = preRelease v"
    unfolding until_log_parsing_def by (auto dest: previous_tag_pre)
  with \<open>v' = v4\<close> \<open>preRelease v4 = preRelease v3\<close> \<open>preRelease v3 = preRelease v2\<close>
    \<open>preRelease v2 = preRelease v1\<close> show ?thesis by simp
qed

lemmas run_defs = run_def until_creation_def until_connect_def until_dry_run_def until_gates_def
  until_changelog_def until_version_def until_bump_def until_log_parsing_def until_tag_discovery_def
  until_classification_def and_then_def start_def read_inputs_def classify_branch_def previous_tag_def
  read_commits_def resolve_bump_def compute_version_def changelog_def skip_gates_def dry_run_gate_def
  connect_def create_tag_def setFailed_def setOutput_def emit_def exec_def await_exec_def getInput_def
  isPreRelease_def parse_commits_def effective_bump_def or_else_def log_format_def SEPARATOR_def
  quote_def dquote_def trim_def strip_quotes_def is_space_def is_quote_or_space_def contains_def
  replace_def slice0_def split.simps Let_def reached_def

lemmas test_defs = test_world_def test_env_def test_exec_def test_log_def chore_log_def test_analyze_def
  starts_with_any_def plain_inc_def digit_of_def text_of.simps literal_match_def
  tagged_sha_def head_sha_def tag_object_sha_def newline_def annotated_env_def dry_run_env_def
  topic_env_def same_commit_env_def unset_branches_env_def chore_world_def offline_world_def

section \<open>The claims\<close>

subsection \<open>Pre-release classification\<close>

text \<open>
  C1, as amended. For every list of release branches and every ref, the current branch is
  the ref without the leftmost occurrence of \<^verbatim>\<open>refs/heads/\<close> (the leading prefix when the
  ref starts with it, and the whole ref when it has none). When the classification gives
  a result, the branch is pre-release exactly if it matches none of the patterns that
  splitting the list on commas gives, each tested with \<^verbatim>\<open>String.prototype.match\<close>, an
  unanchored search; and it gives a result whenever every pattern is a regular expression
  (a pattern that is not one makes the run fail when it is reached).
\<close>

theorem preRelease_iff_no_pattern_matches:
  "(\<forall>b. isPreRelease w rb ref = Inr b \<longrightarrow>
      (b \<longleftrightarrow> (\<forall>p\<in>set (split '','' rb). string_match w (replace ''refs/heads/'' [] ref) p \<noteq> Inr True)))
   \<and> ((\<forall>p\<in>set (split '','' rb). \<exists>m. string_match w (replace ''refs/heads/'' [] ref) p = Inr m) \<longrightarrow>
        (\<exists>b. isPreRelease w rb ref = Inr b))
   \<and> (\<forall>b. ref = ''refs/heads/'' @ b \<longrightarrow> replace ''refs/heads/'' [] ref = b)
   \<and> (\<not> contains ''refs/heads/'' ref \<longrightarrow> replace ''refs/heads/'' [] ref = ref)"
  unfolding isPreRelease_def
  using every_no_match_Inr [of w "replace ''refs/heads/'' [] ref" "split '','' rb"]
    every_no_match_total [of "split '','' rb" w "replace ''refs/heads/'' [] ref"]
    replace_leading replace_absent [of "''refs/heads/''" ref "[]"]
  by blast

text \<open>A branch that matches no pattern, one that matches the second pattern, and a
  pattern that is only a part of the name of the branch.\<close>

theorem preRelease_iff_no_pattern_matches_witness:
  "isPreRelease test_world ''main,release/'' ''refs/heads/feature/x'' = Inr True
   \<and> isPreRelease test_world ''main,release/'' ''refs/heads/release/2'' = Inr False
   \<and> isPreRelease test_world ''mai'' ''refs/heads/main'' = Inr False"
  using preRelease_iff_no_pattern_matches [of test_world "''main,release/''" "''refs/heads/feature/x''"]
    preRelease_iff_no_pattern_matches [of test_world "''main,release/''" "''refs/heads/release/2''"]
    preRelease_iff_no_pattern_matches [of test_world "''mai''" "''refs/heads/main''"]
  by (simp add: str_defs test_world_def)

text \<open>
  C1 as it is written takes the ref without a leading \<^verbatim>\<open>refs/heads/\<close>. For the ref of a
  tag named \<^verbatim>\<open>refs/heads/main\<close> the run deletes the occurrence inside the ref and finds the
  pattern \<^verbatim>\<open>tags/main\<close> in what is left, so the branch is not pre-release, while the ref
  without a leading prefix matches no pattern.
\<close>

theorem leading_prefix_counterexample:
  "isPreRelease test_world ''tags/main'' ''refs/tags/refs/heads/main'' = Inr False
   \<and> spec_preRelease test_world ''tags/main'' ''refs/tags/refs/heads/main''"
  by (simp add: str_defs test_world_def)

subsection \<open>The new version and the new tag\<close>

text \<open>
  C2. For every run that reaches the computation of the version with the previous tag
  \<^verbatim>\<open>v1.2.3\<close>, the tag prefix \<^verbatim>\<open>v\<close> and the bump \<^verbatim>\<open>minor\<close>, where the version library
  increments 1.2.3 to 1.3.0: the output \<^verbatim>\<open>new_version\<close> is \<^verbatim>\<open>1.3.0\<close> on a release branch
  and \<^verbatim>\<open>1.3.0-\<close> followed by the first 7 characters of the head commit on a pre-release
  branch, and the output \<^verbatim>\<open>new_tag\<close> is the prefix followed by that version.
\<close>

theorem minor_bump_of_v1_2_3:
  assumes "until_version w penv = Inr (v, s)"
    and "tag v = ''v1.2.3''" and "tagPrefix v = ''v''" and "bump v = ''minor''"
    and "semver_inc w ''1.2.3'' ''minor'' = Some ''1.3.0''"
  shows "penv ''GITHUB_SHA'' = Some (GITHUB_SHA v)
    \<and> env (snd (run w penv)) ''new_version''
           = Some (if preRelease v then ''1.3.0-'' @ take 7 (GITHUB_SHA v) else ''1.3.0'')
    \<and> env (snd (run w penv)) ''new_tag''
           = Some (''v'' @ (if preRelease v then ''1.3.0-'' @ take 7 (GITHUB_SHA v) else ''1.3.0''))"
proof -
  let ?nv = "if preRelease v then ''1.3.0-'' @ take 7 (GITHUB_SHA v) else ''1.3.0''"
  have raw: "replace (tagPrefix v) [] (tag v) = ''1.2.3''"
    using assms(2,3) by (simp add: replace_def)
  obtain v' s' where cv: "compute_version w v s = Inr (v', s')"
    and nv: "env s' ''new_version'' = Some ?nv" and nt: "env s' ''new_tag'' = Some (''v'' @ ?nv)"
    using assms(3,4,5) raw
    by (simp add: compute_version_def Let_def or_else_def slice0_def setOutput_def emit_def)
  have "run w penv = from_changelog w v' s'"
    using assms(1) cv by (simp add: run_from_version from_version_def)
  moreover have "penv ''GITHUB_SHA'' = Some (GITHUB_SHA v)"
    using until_version_inputs [OF assms(1)] by (simp add: inputs_of_def)
  ultimately show ?thesis
    using from_changelog_env [OF _ _ nv, of w v'] from_changelog_env [OF _ _ nt, of w v'] by simp
qed

theorem minor_bump_of_v1_2_3_witness:
  "map_option (\<lambda>v. (tag v, tagPrefix v, bump v, preRelease v)) (reached (until_version test_world test_env))
     = Some (''v1.2.3'', ''v'', ''minor'', False)
   \<and> map_option (\<lambda>v. (tag v, tagPrefix v, bump v, preRelease v)) (reached (until_version test_world topic_env))
     = Some (''v1.2.3'', ''v'', ''minor'', True)
   \<and> semver_inc test_world ''1.2.3'' ''minor'' = Some ''1.3.0''
   \<and> env (snd (run test_world test_env)) ''new_version'' = Some ''1.3.0''
   \<and> env (snd (run test_world test_env)) ''new_tag'' = Some ''v1.3.0''
   \<and> env (snd (run test_world topic_env)) ''new_version'' = Some ''1.3.0-89e6c98''
   \<and> env (snd (run test_world topic_env)) ''new_tag'' = Some ''v1.3.0-89e6c98''"
proof -
  have "\<exists>v s. until_version test_world test_env = Inr (v, s) \<and> tag v = ''v1.2.3'' \<and> tagPrefix v = ''v''
      \<and> bump v = ''minor'' \<and> \<not> preRelease v"
    by (simp add: run_defs test_defs)
  then obtain v s where a: "until_version test_world test_env = Inr (v, s)" "tag v = ''v1.2.3''"
    "tagPrefix v = ''v''" "bump v = ''minor''" "\<not> preRelease v" by blast
  have "\<exists>v s. until_version test_world topic_env = Inr (v, s) \<and> tag v = ''v1.2.3'' \<and> tagPrefix v = ''v''
      \<and> bump v = ''minor'' \<and> preRelease v \<and> GITHUB_SHA v = head_sha"
    by (simp add: run_defs test_defs)
  then obtain v' s' where b: "until_version test_world topic_env = Inr (v', s')" "tag v' = ''v1.2.3''"
    "tagPrefix v' = ''v''" "bump v' = ''minor''" "preRelease v'" "GITHUB_SHA v' = head_sha" by blast
  have inc: "semver_inc test_world ''1.2.3'' ''minor'' = Some ''1.3.0''"
    by (simp add: run_defs test_defs)
  show ?thesis
    using minor_bump_of_v1_2_3 [OF a(1-4) inc] minor_bump_of_v1_2_3 [OF b(1-4) inc] a b inc
    by (simp add: reached_def head_sha_def)
qed

subsection \<open>Bump resolution\<close>

text \<open>
  C3. For every run that reaches the resolution of the bump, where the analyzer answers:
  the bump is the answer of the analyzer when it gives one, and otherwise the configured
  default bump; when the analyzer gives none and no default bump is configured, the run
  fails with the message \<^verbatim>\<open>Nothing to bump - not building release\<close>, and no version
  increment, changelog generation or tag work has taken place.
\<close>

theorem bump_resolution:
  assumes "until_bump w penv = Inr (v, s)"
    and "analyzeCommits w (or_else (messageParserPreset v) ''conventionalcommits'') (commits v) = Inr analyzed"
  shows "getInput penv ''default_bump'' = Inr (defaultBump v)
    \<and> (\<forall>b. analyzed = Some b \<and> b \<noteq> [] \<longrightarrow> (\<exists>s'. until_version w penv = Inr (v\<lparr>bump := b\<rparr>, s')))
    \<and> ((analyzed = None \<or> analyzed = Some []) \<and> defaultBump v \<noteq> [] \<longrightarrow>
          (\<exists>s'. until_version w penv = Inr (v\<lparr>bump := defaultBump v\<rparr>, s')))
    \<and> ((analyzed = None \<or> analyzed = Some []) \<and> penv ''default_bump'' = None \<longrightarrow>
          fst (run w penv) = Failed ''Nothing to bump - not building release''
          \<and> filter is_release_work (trace (snd (run w penv))) = [])"
proof -
  have inp: "getInput penv ''default_bump'' = Inr (defaultBump v)"
    using until_bump_inputs [OF assms(1)] by (simp add: inputs_of_def)
  have s: "within 1 s"
    using until_bump_within [of 1 w penv] assms(1) by simp
  have uv: "until_version w penv = resolve_bump w v s"
    using assms(1) by (simp add: until_version_def)
  have rn: "run w penv = from_bump w v s"
    using assms(1) by (simp add: run_from_bump)
  have some: "\<exists>s'. until_version w penv = Inr (v\<lparr>bump := b\<rparr>, s')" if "analyzed = Some b" "b \<noteq> []" for b
    using that assms(2) by (simp add: uv resolve_bump_def Let_def effective_bump_def or_else_def)
  have dflt: "\<exists>s'. until_version w penv = Inr (v\<lparr>bump := defaultBump v\<rparr>, s')"
    if "analyzed = None \<or> analyzed = Some []" "defaultBump v \<noteq> []"
    using that assms(2) by (auto simp: uv resolve_bump_def Let_def effective_bump_def or_else_def)
  have none: "fst (run w penv) = Failed ''Nothing to bump - not building release''
      \<and> filter is_release_work (trace (snd (run w penv))) = []"
    if "analyzed = None \<or> analyzed = Some []" "penv ''default_bump'' = None"
  proof -
    from inp that(2) have d: "defaultBump v = []" by (simp add: getInput_def)
    have "run w penv = (Failed ''Nothing to bump - not building release'',
        emit (AnalyzeCommits (or_else (messageParserPreset v) ''conventionalcommits'') (commits v)) s)"
      using that(1) assms(2) d
      by (auto simp: rn from_bump_def resolve_bump_def Let_def effective_bump_def or_else_def setFailed_def)
    then show ?thesis
      using within_no_release_work [OF s] by (simp add: emit_def)
  qed
  from inp some dflt none show ?thesis by blast
qed

theorem bump_resolution_witness:
  "map_option bump (reached (until_version test_world test_env)) = Some ''minor''
   \<and> map_option bump (reached (until_version chore_world (test_env(''default_bump'' \<mapsto> ''patch'')))) = Some ''patch''
   \<and> test_env ''default_bump'' = None
   \<and> fst (run chore_world test_env) = Failed ''Nothing to bump - not building release''
   \<and> filter is_release_work (trace (snd (run chore_world test_env))) = []"
proof -
  have "\<exists>v s. until_bump chore_world test_env = Inr (v, s)
      \<and> analyzeCommits chore_world (or_else (messageParserPreset v) ''conventionalcommits'') (commits v) = Inr None"
    by (simp add: run_defs test_defs)
  then obtain v s where a: "until_bump chore_world test_env = Inr (v, s)"
    "analyzeCommits chore_world (or_else (messageParserPreset v) ''conventionalcommits'') (commits v) = Inr None"
    by blast
  have unset: "test_env ''default_bump'' = None" by (simp add: test_defs)
  have "map_option bump (reached (until_version test_world test_env)) = Some ''minor''"
    by (simp add: run_defs test_defs)
  moreover have "map_option bump (reached (until_version chore_world (test_env(''default_bump'' \<mapsto> ''patch'')))) = Some ''patch''"
    by (simp add: run_defs test_defs)
  ultimately show ?thesis
    using bump_resolution [OF a] unset by simp
qed

subsection \<open>No new commits\<close>

text \<open>
  C4. For every run that comes to the discovery of the previous tag, when a tag exists and
  the commit of the most recent tag is the head commit, the run sets \<^verbatim>\<open>previous_tag\<close> to
  the tag found, changes nothing else of the environment, and returns without resolving a
  bump, computing a version, generating a changelog or creating a tag.
\<close>

theorem no_new_commits:
  assumes "until_tag_discovery w penv = Inr (v, s)"
    and "trim (stdout (exec w ''git tag'')) \<noteq> []"
    and "trim (stdout (exec w (''git rev-list --tags='' @ tagPrefix v @ ''* --topo-order --max-count=1'')))
           = GITHUB_SHA v"
  shows "penv ''GITHUB_SHA'' = Some (GITHUB_SHA v)
    \<and> fst (run w penv) = Returned
    \<and> env (snd (run w penv))
        = penv(''previous_tag'' \<mapsto> trim (stdout (exec w (''git describe --tags '' @ GITHUB_SHA v))))
    \<and> filter is_bump_work (trace (snd (run w penv))) = []
    \<and> last (trace (snd (run w penv)))
        = SetOutput ''previous_tag'' (trim (stdout (exec w (''git describe --tags '' @ GITHUB_SHA v))))"
proof -
  from until_tag_discovery_inputs [OF assms(1)]
  have inp: "penv ''GITHUB_SHA'' = Some (GITHUB_SHA v)" and s: "s = start penv"
    by (simp_all add: inputs_of_def)
  have rn: "run w penv = from_tag_discovery w v s"
    using assms(1) by (simp add: run_from_tag_discovery)
  show ?thesis
    using assms(2,3) inp
    by (simp add: rn s from_tag_discovery_def previous_tag_def Let_def await_exec_def emit_def
        setOutput_def start_def)
qed

theorem no_new_commits_witness:
  "same_commit_env ''GITHUB_SHA'' = Some tagged_sha
   \<and> trim (stdout (exec test_world ''git tag'')) = ''v1.2.3''
   \<and> trim (stdout (exec test_world ''git rev-list --tags=v* --topo-order --max-count=1'')) = tagged_sha
   \<and> fst (run test_world same_commit_env) = Returned
   \<and> env (snd (run test_world same_commit_env)) = same_commit_env(''previous_tag'' \<mapsto> ''v1.2.3'')
   \<and> filter is_bump_work (trace (snd (run test_world same_commit_env))) = []"
proof -
  have "\<exists>v s. until_tag_discovery test_world same_commit_env = Inr (v, s) \<and> tagPrefix v = ''v''
      \<and> GITHUB_SHA v = tagged_sha"
    by (simp add: run_defs test_defs)
  then obtain v s where a: "until_tag_discovery test_world same_commit_env = Inr (v, s)"
    "tagPrefix v = ''v''" "GITHUB_SHA v = tagged_sha" by blast
  have b: "trim (stdout (exec test_world ''git tag'')) = ''v1.2.3''"
    by (simp add: run_defs test_defs)
  have c: "trim (stdout (exec test_world ''git rev-list --tags=v* --topo-order --max-count=1'')) = tagged_sha"
    by (simp add: run_defs test_defs)
  have d: "trim (stdout (exec test_world (''git describe --tags '' @ tagged_sha))) = ''v1.2.3''"
    by (simp add: run_defs test_defs)
  have e: "same_commit_env ''GITHUB_SHA'' = Some tagged_sha" by (simp add: same_commit_env_def)
  from b have b': "trim (stdout (exec test_world ''git tag'')) \<noteq> []" by simp
  from c a(2,3) have c': "trim (stdout (exec test_world (''git rev-list --tags='' @ tagPrefix v @ ''* --topo-order --max-count=1''))) = GITHUB_SHA v"
    by simp
  show ?thesis
    using no_new_commits [OF a(1) b' c'] a(3) b c d e by simp
qed

subsection \<open>Dry run\<close>

text \<open>
  C5. For every run whose input \<^verbatim>\<open>dry_run\<close> is the text \<^verbatim>\<open>true\<close>: the remote
  tag-publishing gateway is never called, whatever else the run computes; and when the run
  reaches the dry-run check, it sets the output \<^verbatim>\<open>dry_run\<close> to \<^verbatim>\<open>true\<close> and returns.
\<close>

theorem dry_run_never_publishes:
  assumes "penv ''dry_run'' = Some ''true''"
  shows "filter is_remote (trace (snd (run w penv))) = []
    \<and> (\<forall>v s. until_dry_run w penv = Inr (v, s) \<longrightarrow>
          run w penv = (Returned, setOutput ''dry_run'' ''true'' s)
          \<and> env (snd (run w penv)) ''dry_run'' = Some ''true'')"
proof -
  have quiet: "within 3 (state_of (until_dry_run w penv))"
    by (rule until_dry_run_within) simp
  have stop: "run w penv = (Returned, setOutput ''dry_run'' ''true'' s)"
    if "until_dry_run w penv = Inr (v, s)" for v s
  proof -
    from until_dry_run_inputs [OF that] assms have "dryRun v = ''true''"
      by (simp add: inputs_of_def getInput_def)
    then show ?thesis
      using that by (simp add: run_from_dry_run from_dry_run_def dry_run_gate_def)
  qed
  have "filter is_remote (trace (snd (run w penv))) = []"
  proof (cases "until_dry_run w penv")
    case (Inl r)
    then have "run w penv = r" by (simp add: run_from_dry_run)
    moreover from quiet Inl have "within 3 (snd r)" by (cases r) simp
    ultimately show ?thesis by (simp add: within_no_remote)
  next
    case (Inr p)
    obtain v s where p: "p = (v, s)" by (cases p)
    with quiet Inr have "within 3 s" by simp
    then have "within 3 (setOutput ''dry_run'' ''true'' s)" by (rule within_setOutput)
    then show ?thesis using stop [of v s] Inr p by (simp add: within_no_remote)
  qed
  moreover have "env (setOutput ''dry_run'' ''true'' s) ''dry_run'' = Some ''true''" for s
    by (simp add: setOutput_def emit_def)
  ultimately show ?thesis using stop by simp
qed

theorem dry_run_never_publishes_witness:
  "dry_run_env ''dry_run'' = Some ''true''
   \<and> reached (until_dry_run test_world dry_run_env) \<noteq> None
   \<and> fst (run test_world dry_run_env) = Returned
   \<and> env (snd (run test_world dry_run_env)) ''dry_run'' = Some ''true''
   \<and> filter is_remote (trace (snd (run test_world dry_run_env))) = []"
proof -
  have a: "dry_run_env ''dry_run'' = Some ''true''" by (simp add: dry_run_env_def)
  have "\<exists>v s. until_dry_run test_world dry_run_env = Inr (v, s)"
    by (simp add: run_defs test_defs)
  then obtain v s where b: "until_dry_run test_world dry_run_env = Inr (v, s)" by blast
  then have c: "reached (until_dry_run test_world dry_run_env) \<noteq> None" by (simp add: reached_def)
  from dry_run_never_publishes [of dry_run_env test_world] a b
  have r: "filter is_remote (trace (snd (run test_world dry_run_env))) = []"
    "run test_world dry_run_env = (Returned, setOutput ''dry_run'' ''true'' s)"
    "env (snd (run test_world dry_run_env)) ''dry_run'' = Some ''true''"
    by blast+
  from r(2) have "fst (run test_world dry_run_env) = Returned" by (simp only: fst_conv)
  with a c r(1,3) show ?thesis by (intro conjI)
qed

subsection \<open>Tag creation\<close>

text \<open>
  C6, as amended. For every run that reaches the creation of the tag and knows its
  repository: in annotated mode, when the creation of the tag object succeeds, the run
  makes exactly two remote calls, first the tag object (message the tag name, object the
  head commit, type \<^verbatim>\<open>commit\<close>), then a reference to the identifier the first call
  answered; when the creation of the tag object fails, that call is the only one and the
  run fails with its error. Otherwise the run makes exactly one remote call, a reference to
  the head commit.
\<close>

theorem tag_creation_calls:
  assumes "until_creation w penv = Inr (v, s)"
    and "context_repo w = Inr (owner, repo)"
  shows "getInput penv ''create_annotated_tag'' = Inr (createAnnotatedTag v)
    \<and> penv ''GITHUB_SHA'' = Some (GITHUB_SHA v)
    \<and> (createAnnotatedTag v = ''true'' \<longrightarrow>
         (\<forall>sha. createTag w owner repo (newTag v) (newTag v) (GITHUB_SHA v) ''commit'' = Inr sha \<longrightarrow>
            filter is_remote (trace (snd (run w penv)))
              = [CreateTag owner repo (newTag v) (newTag v) (GITHUB_SHA v) ''commit'',
                 CreateRef owner repo (''refs/tags/'' @ newTag v) sha])
         \<and> (\<forall>m. createTag w owner repo (newTag v) (newTag v) (GITHUB_SHA v) ''commit'' = Inl m \<longrightarrow>
            filter is_remote (trace (snd (run w penv)))
              = [CreateTag owner repo (newTag v) (newTag v) (GITHUB_SHA v) ''commit'']
            \<and> fst (run w penv) = Failed m))
    \<and> (createAnnotatedTag v \<noteq> ''true'' \<longrightarrow>
         filter is_remote (trace (snd (run w penv)))
           = [CreateRef owner repo (''refs/tags/'' @ newTag v) (GITHUB_SHA v)])"
proof -
  from until_creation_inputs [OF assms(1)]
  have inp: "getInput penv ''create_annotated_tag'' = Inr (createAnnotatedTag v)"
    "penv ''GITHUB_SHA'' = Some (GITHUB_SHA v)"
    by (simp_all add: inputs_of_def)
  have "within 3 s"
    using until_creation_within [of 3 w penv] assms(1) by simp
  then have quiet: "filter is_remote (trace s) = []" by (rule within_no_remote)
  have rn: "run w penv = create_tag w v s"
    using assms(1) by (simp add: run_from_creation)
  show ?thesis
    using inp quiet assms(2)
    by (auto simp: rn create_tag_def Let_def emit_def await_exec_def split: sum.splits)
qed

theorem tag_creation_calls_witness:
  "reached (until_creation test_world annotated_env) \<noteq> None
   \<and> reached (until_creation test_world test_env) \<noteq> None
   \<and> context_repo test_world = Inr (''octo'', ''demo'')
   \<and> filter is_remote (trace (snd (run test_world annotated_env)))
       = [CreateTag ''octo'' ''demo'' ''v1.3.0'' ''v1.3.0'' head_sha ''commit'',
          CreateRef ''octo'' ''demo'' ''refs/tags/v1.3.0'' tag_object_sha]
   \<and> filter is_remote (trace (snd (run test_world test_env)))
       = [CreateRef ''octo'' ''demo'' ''refs/tags/v1.3.0'' head_sha]"
proof -
  have "\<exists>v s. until_creation test_world annotated_env = Inr (v, s) \<and> createAnnotatedTag v = ''true''
      \<and> newTag v = ''v1.3.0'' \<and> GITHUB_SHA v = head_sha"
    by (simp add: run_defs test_defs)
  then obtain v s where a: "until_creation test_world annotated_env = Inr (v, s)"
    "createAnnotatedTag v = ''true''" "newTag v = ''v1.3.0''" "GITHUB_SHA v = head_sha" by blast
  have "\<exists>v s. until_creation test_world test_env = Inr (v, s) \<and> createAnnotatedTag v \<noteq> ''true''
      \<and> newTag v = ''v1.3.0'' \<and> GITHUB_SHA v = head_sha"
    by (simp add: run_defs test_defs)
  then obtain v' s' where b: "until_creation test_world test_env = Inr (v', s')"
    "createAnnotatedTag v' \<noteq> ''true''" "newTag v' = ''v1.3.0''" "GITHUB_SHA v' = head_sha" by blast
  have repo: "context_repo test_world = Inr (''octo'', ''demo'')" by (simp add: test_world_def)
  have made: "createTag test_world ''octo'' ''demo'' ''v1.3.0'' ''v1.3.0'' head_sha ''commit'' = Inr tag_object_sha"
    by (simp add: test_world_def)
  from tag_creation_calls [OF a(1) repo] a(2,3,4) made
  have "filter is_remote (trace (snd (run test_world annotated_env)))
       = [CreateTag ''octo'' ''demo'' ''v1.3.0'' ''v1.3.0'' head_sha ''commit'',
          CreateRef ''octo'' ''demo'' ''refs/tags/v1.3.0'' tag_object_sha]"
    by simp
  moreover from tag_creation_calls [OF b(1) repo] b(2,3,4)
  have "filter is_remote (trace (snd (run test_world test_env)))
       = [CreateRef ''octo'' ''demo'' ''refs/tags/v1.3.0'' head_sha]"
    by simp
  moreover have "reached (until_creation test_world annotated_env) \<noteq> None"
    "reached (until_creation test_world test_env) \<noteq> None"
    using a(1) b(1) by (simp_all add: reached_def)
  ultimately show ?thesis using repo by (intro conjI)
qed

text \<open>
  C6 as it is written promises two remote calls in every annotated run. When the remote
  API refuses the tag object, the run makes one call and fails.
\<close>

theorem failed_tag_object_counterexample:
  "reached (until_creation offline_world annotated_env) \<noteq> None
   \<and> map_option createAnnotatedTag (reached (until_creation offline_world annotated_env)) = Some ''true''
   \<and> fst (run offline_world annotated_env) = Failed ''Bad credentials''
   \<and> filter is_remote (trace (snd (run offline_world annotated_env)))
       = [CreateTag ''octo'' ''demo'' ''v1.3.0'' ''v1.3.0'' head_sha ''commit'']"
  by (simp add: run_defs test_defs)

subsection \<open>Fetching the new tag\<close>

text \<open>
  C7 says that the tags are fetched again after the tag is created, annotated or not. The
  run with an annotated tag returns right after the reference is created: its last event is
  that call, where the run without annotation ends with \<^verbatim>\<open>git fetch --tags\<close>.
\<close>

theorem annotated_tag_is_not_fetched:
  "fst (run test_world annotated_env) = Returned
   \<and> filter is_remote (trace (snd (run test_world annotated_env)))
       = [CreateTag ''octo'' ''demo'' ''v1.3.0'' ''v1.3.0'' head_sha ''commit'',
          CreateRef ''octo'' ''demo'' ''refs/tags/v1.3.0'' tag_object_sha]
   \<and> last (trace (snd (run test_world annotated_env)))
       = CreateRef ''octo'' ''demo'' ''refs/tags/v1.3.0'' tag_object_sha
   \<and> last (trace (snd (run test_world test_env))) = Exec ''git fetch --tags''"
  by (simp add: run_defs test_defs)

subsection \<open>Parsing the log\<close>

text \<open>
  C8, as amended. For every list of commit messages that are not empty, have no single
  quote or white space at either end, do not end with \<^verbatim>\<open>=\<close> and do not contain the
  separator: joining them with the separator and parsing the text gives the list back, in
  order. Parsing any text gives no empty message.
\<close>

theorem parse_commits_round_trip:
  assumes "\<forall>m\<in>set ms. clean m"
  shows "map message (parse_commits (join_records SEPARATOR ms)) = ms
    \<and> (\<forall>text. [] \<notin> set (map message (parse_commits text)))"
proof
  show "map message (parse_commits (join_records SEPARATOR ms)) = ms"
  proof (cases "ms = []")
    case True
    have "split SEPARATOR [] = [[]]"
      by (rule split_none) (simp_all add: SEPARATOR_def)
    then show ?thesis
      using True by (simp add: parse_commits_def trim_def strip_quotes_def)
  next
    case False
    have "\<forall>m\<in>set ms. indexOf (replicate 46 (CHR ''='')) m = None \<and> (m \<noteq> [] \<longrightarrow> last m \<noteq> CHR ''='')"
      using assms unfolding clean_def contains_def SEPARATOR_replicate by blast
    with False have "split (replicate 46 (CHR ''='')) (join_records (replicate 46 (CHR ''='')) ms) = ms"
      by (intro split_joined) simp_all
    then have "split SEPARATOR (join_records SEPARATOR ms) = ms"
      by (simp only: SEPARATOR_replicate)
    then show ?thesis
      using parse_clean_records [OF assms] by (simp only: parse_commits_def)
  qed
  show "\<forall>text. [] \<notin> set (map message (parse_commits text))"
    by (auto simp: parse_commits_def)
qed

theorem parse_commits_round_trip_witness:
  "clean ''feat: add dry run'' \<and> clean ''fix: typo''
   \<and> map message (parse_commits (join_records SEPARATOR [''feat: add dry run'', ''fix: typo'']))
       = [''feat: add dry run'', ''fix: typo'']"
  using parse_commits_round_trip [of "[''feat: add dry run'', ''fix: typo'']"]
  by (simp add: clean_def contains_def is_quote_or_space_def is_space_def quote_def SEPARATOR_def)

text \<open>
  C8 as it is written holds for every list of messages. A message in single quotes loses
  its first quote, an empty message is dropped, and a message that ends with \<^verbatim>\<open>=\<close> is cut
  one character early.
\<close>

theorem round_trip_counterexample:
  "map message (parse_commits (join_records SEPARATOR [[quote] @ ''use strict'' @ [quote] @ '' is needed'', ''fix: typo'']))
     \<noteq> [[quote] @ ''use strict'' @ [quote] @ '' is needed'', ''fix: typo'']
   \<and> map message (parse_commits (join_records SEPARATOR [[quote] @ ''use strict'' @ [quote] @ '' is needed'', ''fix: typo'']))
     = [''use strict'' @ [quote] @ '' is needed'', ''fix: typo'']
   \<and> map message (parse_commits (join_records SEPARATOR [''wip'', ''''])) = [''wip'']
   \<and> map message (parse_commits (join_records SEPARATOR [''a='', ''b''])) = [''a'', ''=b'']"
  by (simp add: parse_defs)

subsection \<open>Reading an input\<close>

text \<open>
  C9. For every key, \<open>getInput\<close> throws exactly when the environment stores the empty
  string for the key; for a key that is not set it returns the empty string, and for
  any other stored text it returns that text unchanged.
\<close>

theorem getInput_fails_iff_blank:
  "((\<exists>msg. getInput e key = Inl msg) \<longleftrightarrow> e key = Some [])
   \<and> (e key = None \<longrightarrow> getInput e key = Inr [])
   \<and> (\<forall>x. e key = Some x \<and> x \<noteq> [] \<longrightarrow> getInput e key = Inr x)"
  by (auto simp: getInput_def)

theorem getInput_fails_iff_blank_witness:
  "getInput [''dry_run'' \<mapsto> '''', ''tag_prefix'' \<mapsto> ''v''] ''dry_run'' = Inl ''No dry_run in env.''
   \<and> getInput [''dry_run'' \<mapsto> '''', ''tag_prefix'' \<mapsto> ''v''] ''default_bump'' = Inr ''''
   \<and> getInput [''dry_run'' \<mapsto> '''', ''tag_prefix'' \<mapsto> ''v''] ''tag_prefix'' = Inr ''v''"
  using getInput_fails_iff_blank [of "[''dry_run'' \<mapsto> '''', ''tag_prefix'' \<mapsto> ''v'']" "''dry_run''"]
    getInput_fails_iff_blank [of "[''dry_run'' \<mapsto> '''', ''tag_prefix'' \<mapsto> ''v'']" "''default_bump''"]
    getInput_fails_iff_blank [of "[''dry_run'' \<mapsto> '''', ''tag_prefix'' \<mapsto> ''v'']" "''tag_prefix''"]
  by (simp add: getInput_def)

subsection \<open>No list of release branches\<close>

text \<open>
  C10. For every run in which \<^verbatim>\<open>release_branches\<close> is not set and the regular expression
  of the empty pattern matches the branch: the list reads as the empty text, splitting it
  gives the one empty pattern, the branch is classified as not pre-release, and it still is
  when the run comes to the gates before the creation of the tag.
\<close>

theorem unset_release_branches:
  assumes "penv ''release_branches'' = None"
    and "until_classification w penv = Inr (v, s)"
    and "string_match w (replace ''refs/heads/'' [] (GITHUB_REF v)) [] = Inr True"
  shows "releaseBranches v = [] \<and> split '','' (releaseBranches v) = [[]]
    \<and> isPreRelease w (releaseBranches v) (GITHUB_REF v) = Inr False
    \<and> until_tag_discovery w penv = Inr (v\<lparr>preRelease := False\<rparr>, s)
    \<and> (\<forall>v' s'. until_gates w penv = Inr (v', s') \<longrightarrow> \<not> preRelease v')"
proof -
  from until_classification_inputs [OF assms(2)] assms(1) have rb: "releaseBranches v = []"
    by (simp add: inputs_of_def getInput_def)
  have sp: "split '','' ([] :: string) = [[]]"
    by (simp add: split.simps)
  have pre: "isPreRelease w (releaseBranches v) (GITHUB_REF v) = Inr False"
    using assms(3) by (simp add: isPreRelease_def rb sp)
  have td: "until_tag_discovery w penv = Inr (v\<lparr>preRelease := False\<rparr>, s)"
    using assms(2) pre by (simp add: until_tag_discovery_def classify_branch_def)
  have "\<not> preRelease v'" if "until_gates w penv = Inr (v', s')" for v' s'
    using until_gates_pre [OF that td] by simp
  with rb sp pre td show ?thesis by simp
qed

theorem unset_release_branches_witness:
  "unset_branches_env ''release_branches'' = None
   \<and> map_option GITHUB_REF (reached (until_classification test_world unset_branches_env)) = Some ''refs/heads/main''
   \<and> string_match test_world ''main'' [] = Inr True
   \<and> map_option preRelease (reached (until_tag_discovery test_world unset_branches_env)) = Some False
   \<and> map_option preRelease (reached (until_gates test_world unset_branches_env)) = Some False"
proof -
  have a: "unset_branches_env ''release_branches'' = None" by (simp add: test_defs)
  have "\<exists>v s. until_classification test_world unset_branches_env = Inr (v, s) \<and> GITHUB_REF v = ''refs/heads/main''"
    by (simp add: run_defs test_defs)
  then obtain v s where b: "until_classification test_world unset_branches_env = Inr (v, s)"
    "GITHUB_REF v = ''refs/heads/main''" by blast
  have m: "string_match test_world ''main'' [] = Inr True"
    by (simp add: test_world_def literal_match_def contains_def)
  have r: "replace ''refs/heads/'' [] ''refs/heads/main'' = ''main''" by (simp add: replace_def)
  from m r b(2) have c: "string_match test_world (replace ''refs/heads/'' [] (GITHUB_REF v)) [] = Inr True"
    by simp
  have "\<exists>v' s'. until_gates test_world unset_branches_env = Inr (v', s')"
    by (simp add: run_defs test_defs)
  then obtain v' s' where g: "until_gates test_world unset_branches_env = Inr (v', s')" by blast
  from unset_release_branches [OF a b(1) c] g
  have "until_tag_discovery test_world unset_branches_env = Inr (v\<lparr>preRelease := False\<rparr>, s)"
    and "\<not> preRelease v'" by blast+
  then show ?thesis using a b m g by (simp add: reached_def)
qed

end
